theory Spec2Isabelle
  imports Main "HOL-Library.Multiset"
begin

section \<open>Data model (models.js)\<close>

text \<open>
  The Mongoose schemas become records. An ObjectId is a natural number, an instant is the
  number of milliseconds since the epoch. The fields \<open>description\<close> and \<open>createdAt\<close> of
  the schemas are never read by the routes and are left out.
\<close>

type_synonym oid = nat
type_synonym instant = int

datatype role = Voter | Admin

record voter =
  voter_id :: oid
  email :: string
  role :: role

record candidate =
  cand_id :: string
  cand_name :: string

record contest =
  contest_id :: string
  title :: string
  candidates :: "candidate list"
  maxSelections :: int

record election =
  election_id :: oid
  el_name :: string
  startAt :: instant
  endAt :: instant
  isOpen :: bool
  isPublished :: bool
  contests :: "contest list"

record ballot_assignment =
  voterId :: oid
  electionId :: oid
  issuedAt :: instant
  votedAt :: "instant option"

record selection =
  contestId :: string
  selectedCandidateIds :: "string list"

record anonymous_vote =
  vote_electionId :: oid
  selections :: "selection list"
  submittedAt :: instant
  receipt :: string

datatype audit_details =
    NoDetails
  | PathMethod string string
  | ReceiptDetails string
  | TotalVotes nat

record audit_log =
  actor :: string
  actorId :: "oid option"
  action :: string
  details :: audit_details

section \<open>The tally loops (routes.js, /admin/tally/run and /results/view)\<close>

text \<open>
  \<open>results\<close> is a plain JavaScript object whose properties are plain objects. Reading
  \<open>o[k]\<close> takes the own property \<open>k\<close> of \<open>o\<close> when there is one and goes up the
  prototype chain otherwise; the prototype of a plain object is \<open>Object.prototype\<close>. The
  members of \<open>Object.prototype\<close> are the methods named below, each one a built-in
  function when the process starts, and \<open>__proto__\<close>, an accessor whose getter returns the
  prototype of the object it is read on and whose setter ignores every value that is neither
  an object nor null.
\<close>

definition object_prototype_methods :: "string list" where
  "object_prototype_methods =
     [''constructor'', ''hasOwnProperty'', ''isPrototypeOf'', ''propertyIsEnumerable'',
      ''toLocaleString'', ''toString'', ''valueOf'', ''__defineGetter__'',
      ''__defineSetter__'', ''__lookupGetter__'', ''__lookupSetter__'']"

definition object_prototype_names :: "string list" where
  "object_prototype_names = ''__proto__'' # object_prototype_methods"

text \<open>
  A built-in function inherits from \<open>Function.prototype\<close> before \<open>Object.prototype\<close>. The
  writable members of \<open>Function.prototype\<close> are the methods below; its members
  \<open>arguments\<close> and \<open>caller\<close> are accessors that throw. A string inherits from
  \<open>String.prototype\<close> and a number from \<open>Number.prototype\<close>, which have members of their
  own under the names below and so hide those of \<open>Object.prototype\<close>.
\<close>

definition function_prototype_methods :: "string list" where
  "function_prototype_methods = [''apply'', ''bind'', ''call'', ''constructor'', ''toString'']"

definition string_prototype_hides :: "string list" where
  "string_prototype_hides = [''constructor'', ''toString'', ''valueOf'']"

definition number_prototype_hides :: "string list" where
  "number_prototype_hides = [''constructor'', ''toLocaleString'', ''toString'', ''valueOf'']"

text \<open>
  A property of an inner object holds a number, or, once \<open>+= 1\<close> has been applied to an
  inherited function, a string: the source text of that function followed by digits
  \<open>1\<close>. \<open>FnText k\<close> is that text followed by \<open>k\<close> such digits; the function is the
  one \<open>Object.prototype\<close> has under the name of the property. Counts are natural numbers;
  the doubles of JavaScript are exact below \<open>2^53\<close>.
\<close>

datatype jsval = Num nat | FnText nat

type_synonym counts = "string \<rightharpoonup> jsval"
type_synonym results = "string \<rightharpoonup> counts"

text \<open>
  The loops reach built-in objects through the prototype chain, and write to them.
  \<open>op_slot\<close> is the value of each method of \<open>Object.prototype\<close>: the built-in function
  it started as, or the string that has replaced it, the text of that function followed by
  so many digits \<open>1\<close>. \<open>fn_own\<close> gives, for the built-in function a method started as,
  the names of the properties the loops have stored on it; they hold strings. Every other
  write of the loops to a built-in object is ignored (a property that is not writable, a
  setter that ignores the value, a property of a primitive) or changes nothing the loops
  read later (a static method of \<open>Object\<close>). The built-in objects belong to the process:
  what one run of the loops does to them is there for the next run. What it does to the
  libraries that serve the request is outside this model.
\<close>

datatype slot = Builtin | Text nat

record builtins =
  op_slot :: "string \<Rightarrow> slot"
  fn_own :: "string \<Rightarrow> string set"

definition pristine :: builtins where
  "pristine = \<lparr>op_slot = (\<lambda>m. Builtin), fn_own = (\<lambda>m. {})\<rparr>"

text \<open>
  What a route can throw. Nothing catches: a handler that throws sends no response.
  \<open>NullElection\<close> is the \<open>TypeError\<close> of reading a field of \<open>null\<close>.
\<close>

datatype thrown = TypeError | NullElection | ValidationFailed | DuplicateKey | AuditWriteFailed

text \<open>
  A \<open>for ... of\<close> loop whose body may throw: the loop ends at the first round that
  throws, with the state as that round left it.
\<close>

fun for_of :: "('s \<Rightarrow> 'x \<Rightarrow> thrown option \<times> 's) \<Rightarrow> 's \<Rightarrow> 'x list \<Rightarrow> thrown option \<times> 's" where
  "for_of body st [] = (None, st)"
| "for_of body st (x # xs) =
     (case body st x of
        (Some t, st') \<Rightarrow> (Some t, st')
      | (None, st') \<Rightarrow> for_of body st' xs)"

text \<open>
  \<open>v + 1\<close> for the value \<open>v\<close> of the method \<open>m\<close> of \<open>Object.prototype\<close>: a string, the
  text of the function followed by the number of digits returned. A string takes one more
  digit. A function is converted by its \<open>toString\<close>: that is the one of
  \<open>Function.prototype\<close>, which gives the text, unless the loops have stored a property
  \<open>toString\<close> on the function; that property is a string and cannot be called, and the
  conversion throws.
\<close>

definition method_plus_one :: "builtins \<Rightarrow> string \<Rightarrow> thrown + nat" where
  "method_plus_one b m =
     (case op_slot b m of
        Text j \<Rightarrow> Inr (j + 1)
      | Builtin \<Rightarrow> if ''toString'' \<in> fn_own b m then Inl TypeError else Inr 1)"

text \<open>
  \<open>Object.prototype + 1\<close> converts the object by \<open>Object.prototype.toString\<close>, and
  throws once a string has replaced that method.
\<close>

definition prototype_plus_one_throws :: "builtins \<Rightarrow> bool" where
  "prototype_plus_one_throws b = (op_slot b ''toString'' \<noteq> Builtin)"

text \<open>
  \<^verbatim>\<open>for (const candidate of contest.candidates) results[contest.id][candidate.id] = 0;\<close>
  The assignment to \<open>__proto__\<close> calls the inherited setter with the number 0, which
  ignores it.
\<close>

fun init_candidates :: "counts \<Rightarrow> candidate list \<Rightarrow> counts" where
  "init_candidates inner [] = inner"
| "init_candidates inner (c # cs) =
     init_candidates
       (if cand_id c = ''__proto__'' then inner else inner(cand_id c \<mapsto> Num 0)) cs"

text \<open>
  The objects of one run of the loops: the own properties of \<open>results\<close>, which are what
  the response shows; the object that has replaced the prototype of \<open>results\<close>, if one
  has; and the built-in objects.
\<close>

record tally =
  own_results :: results
  replaced_prototype :: "counts option"
  builtin_objects :: builtins

text \<open>
  \<^verbatim>\<open>for (const contest of election.contests) { results[contest.id] = {}; ... }\<close>
  A later contest with the same id replaces the inner object of an earlier one. For the
  id \<open>__proto__\<close> the assignment calls the inherited setter with the new object, which
  makes it the prototype of \<open>results\<close>; \<open>results['__proto__']\<close> then reads that object,
  and the candidates of the contest become its properties, not properties of \<open>results\<close>.
\<close>

fun init_results :: "tally \<Rightarrow> contest list \<Rightarrow> tally" where
  "init_results t [] = t"
| "init_results t (c # cs) =
     init_results
       (if contest_id c = ''__proto__''
        then t\<lparr>replaced_prototype := Some (init_candidates Map.empty (candidates c))\<rparr>
        else t\<lparr>own_results :=
                 (own_results t)(contest_id c \<mapsto> init_candidates Map.empty (candidates c))\<rparr>)
       cs"

text \<open>
  \<^verbatim>\<open>if (results[s.contestId][cid] !== undefined) results[s.contestId][cid] += 1;\<close>
  where \<open>results[s.contestId]\<close> is a plain object: the inner object of a contest, or the
  object that has replaced the prototype of \<open>results\<close>. An own number is incremented, an
  own string takes one more digit. An inherited method is not \<open>undefined\<close>: \<open>+= 1\<close>
  turns it into a string and stores that string as an own property. The inherited
  \<open>__proto__\<close> reads \<open>Object.prototype\<close>, which is not \<open>undefined\<close> either; the sum is
  a string, which the setter ignores.
\<close>

definition count_cid :: "builtins \<Rightarrow> counts \<Rightarrow> string \<Rightarrow> thrown option \<times> counts" where
  "count_cid b inner cid =
     (case inner cid of
        Some (Num n) \<Rightarrow> (None, inner(cid \<mapsto> Num (n + 1)))
      | Some (FnText k) \<Rightarrow> (None, inner(cid \<mapsto> FnText (k + 1)))
      | None \<Rightarrow>
          if cid \<in> set object_prototype_methods then
            (case method_plus_one b cid of
               Inl x \<Rightarrow> (Some x, inner)
             | Inr k \<Rightarrow> (None, inner(cid \<mapsto> FnText k)))
          else if cid = ''__proto__'' \<and> prototype_plus_one_throws b then (Some TypeError, inner)
          else (None, inner))"

text \<open>
  The same statement where \<open>results[s.contestId]\<close> is \<open>Object.prototype\<close> itself: a
  method is replaced by a string. Its \<open>__proto__\<close> reads \<open>null\<close>; the sum is the number
  1, which the setter ignores.
\<close>

definition count_cid_prototype :: "builtins \<Rightarrow> string \<Rightarrow> thrown option \<times> builtins" where
  "count_cid_prototype b cid =
     (if cid \<in> set object_prototype_methods then
        (case method_plus_one b cid of
           Inl x \<Rightarrow> (Some x, b)
         | Inr k \<Rightarrow> (None, b\<lparr>op_slot := (op_slot b)(cid := Text k)\<rparr>))
      else (None, b))"

text \<open>
  The same statement where \<open>results[s.contestId]\<close> is the built-in function that the
  method \<open>m\<close> of \<open>Object.prototype\<close> started as. A property the loops have stored on the
  function takes one more digit. \<open>arguments\<close> and \<open>caller\<close> throw. A method inherited
  from \<open>Function.prototype\<close> or from \<open>Object.prototype\<close> is turned into a string and
  stored on the function. \<open>Object.prototype\<close>, the property \<open>prototype\<close> of the function
  \<open>Object\<close>, is converted and the sum not stored. \<open>length\<close> and \<open>name\<close> are not
  writable, the setter of \<open>__proto__\<close> ignores the string, every other name is
  \<open>undefined\<close> or a static method of \<open>Object\<close>.
\<close>

definition store_on_function :: "string \<Rightarrow> string \<Rightarrow> builtins \<Rightarrow> builtins" where
  "store_on_function m cid b = b\<lparr>fn_own := (fn_own b)(m := insert cid (fn_own b m))\<rparr>"

definition count_cid_function :: "string \<Rightarrow> builtins \<Rightarrow> string \<Rightarrow> thrown option \<times> builtins" where
  "count_cid_function m b cid =
     (if cid \<in> fn_own b m then (None, b)
      else if cid = ''arguments'' \<or> cid = ''caller'' then (Some TypeError, b)
      else if cid \<in> set function_prototype_methods then (None, store_on_function m cid b)
      else if cid \<in> set object_prototype_methods then
        (case method_plus_one b cid of
           Inl x \<Rightarrow> (Some x, b)
         | Inr k \<Rightarrow> (None, store_on_function m cid b))
      else if m = ''constructor'' \<and> cid = ''prototype'' \<and> prototype_plus_one_throws b
        then (Some TypeError, b)
      else (None, b))"

text \<open>
  The same statement where \<open>results[s.contestId]\<close> is a string or a number: the
  assignment to a property of a primitive is ignored, and the sum throws only where the
  property is a method of \<open>Object.prototype\<close> that cannot be converted.
\<close>

definition count_cid_primitive :: "string list \<Rightarrow> builtins \<Rightarrow> string \<Rightarrow> thrown option \<times> builtins" where
  "count_cid_primitive hides b cid =
     (if cid \<in> set object_prototype_methods \<and> cid \<notin> set hides then
        (case method_plus_one b cid of
           Inl x \<Rightarrow> (Some x, b)
         | Inr k \<Rightarrow> (None, b))
      else (None, b))"

text \<open>
  \<open>results[s.contestId]\<close> where \<open>s.contestId\<close> is neither an own property of
  \<open>results\<close> nor one of an object that has replaced its prototype: a method of
  \<open>Object.prototype\<close> is a function or a non-empty string, both truthy, and the
  \<open>continue\<close> is not taken; every other name reads \<open>undefined\<close>.
\<close>

definition through_object_prototype :: "tally \<Rightarrow> selection \<Rightarrow> thrown option \<times> tally" where
  "through_object_prototype t s =
     (if contestId s \<in> set object_prototype_methods then
        (case (case op_slot (builtin_objects t) (contestId s) of
                 Builtin \<Rightarrow>
                   for_of (count_cid_function (contestId s)) (builtin_objects t)
                     (selectedCandidateIds s)
               | Text j \<Rightarrow>
                   for_of (count_cid_primitive string_prototype_hides) (builtin_objects t)
                     (selectedCandidateIds s)) of
           (x, b) \<Rightarrow> (x, t\<lparr>builtin_objects := b\<rparr>))
      else (None, t))"

text \<open>
  \<^verbatim>\<open>if (!results[s.contestId]) continue; for (const cid of s.selectedCandidateIds) ...\<close>
  An own property of \<open>results\<close> is an inner object, hence truthy. Otherwise the
  prototype chain answers. Where an object has replaced the prototype of \<open>results\<close>, its
  own properties come first: numbers, of which 0 is falsy, and strings; and
  \<open>__proto__\<close> reads that object. Where none has, \<open>__proto__\<close> reads
  \<open>Object.prototype\<close>.
\<close>

definition count_selection :: "tally \<Rightarrow> selection \<Rightarrow> thrown option \<times> tally" where
  "count_selection t s =
     (case own_results t (contestId s) of
        Some inner \<Rightarrow>
          (case for_of (count_cid (builtin_objects t)) inner (selectedCandidateIds s) of
             (x, inner') \<Rightarrow> (x, t\<lparr>own_results := (own_results t)(contestId s \<mapsto> inner')\<rparr>))
      | None \<Rightarrow>
          (case replaced_prototype t of
             Some p \<Rightarrow>
               (case p (contestId s) of
                  Some (Num n) \<Rightarrow>
                    if n = 0 then (None, t)
                    else
                      (case for_of (count_cid_primitive number_prototype_hides)
                              (builtin_objects t) (selectedCandidateIds s) of
                         (x, b) \<Rightarrow> (x, t\<lparr>builtin_objects := b\<rparr>))
                | Some (FnText k) \<Rightarrow>
                    (case for_of (count_cid_primitive string_prototype_hides)
                            (builtin_objects t) (selectedCandidateIds s) of
                       (x, b) \<Rightarrow> (x, t\<lparr>builtin_objects := b\<rparr>))
                | None \<Rightarrow>
                    if contestId s = ''__proto__'' then
                      (case for_of (count_cid (builtin_objects t)) p (selectedCandidateIds s) of
                         (x, p') \<Rightarrow> (x, t\<lparr>replaced_prototype := Some p'\<rparr>))
                    else through_object_prototype t s)
           | None \<Rightarrow>
               if contestId s = ''__proto__'' then
                 (case for_of count_cid_prototype (builtin_objects t)
                         (selectedCandidateIds s) of
                    (x, b) \<Rightarrow> (x, t\<lparr>builtin_objects := b\<rparr>))
               else through_object_prototype t s))"

definition count_vote :: "tally \<Rightarrow> anonymous_vote \<Rightarrow> thrown option \<times> tally" where
  "count_vote t v = for_of count_selection t (selections v)"

definition count_votes :: "tally \<Rightarrow> anonymous_vote list \<Rightarrow> thrown option \<times> tally" where
  "count_votes t vs = for_of count_vote t vs"

text \<open>The two loops in sequence, as both routes run them, in a process with the given built-in objects.\<close>

definition tally_loops :: "builtins \<Rightarrow> election \<Rightarrow> anonymous_vote list \<Rightarrow> thrown option \<times> tally" where
  "tally_loops b e vs =
     count_votes
       (init_results
          \<lparr>own_results = Map.empty, replaced_prototype = None, builtin_objects = b\<rparr>
          (contests e))
       vs"

text \<open>
  What the loops leave in \<open>results\<close>, or throw, in a process whose built-in objects are
  as they were when it started.
\<close>

definition compute_results :: "election \<Rightarrow> anonymous_vote list \<Rightarrow> thrown + results" where
  "compute_results e vs =
     (case tally_loops pristine e vs of
        (None, t) \<Rightarrow> Inr (own_results t)
      | (Some x, t) \<Rightarrow> Inl x)"

section \<open>The reference tally of the specification\<close>

text \<open>
  The algorithm as the specification words it, over a mapping from contest ids to
  mappings from candidate ids to counts: a zero count for every candidate of every
  contest; for each vote and each of its selections, a selection whose contest is not
  known is skipped, and each selected id that is a known candidate of that contest has
  its count incremented by one, every other id being skipped. What is known is read off
  the contest schema.
\<close>

type_synonym reference_result = "string \<rightharpoonup> (string \<rightharpoonup> nat)"

definition reference_known_contest :: "contest list \<Rightarrow> string \<Rightarrow> bool" where
  "reference_known_contest cs c = (c \<in> set (map contest_id cs))"

definition reference_known_candidate :: "contest list \<Rightarrow> string \<Rightarrow> string \<Rightarrow> bool" where
  "reference_known_candidate cs c k =
     (k \<in> set (map cand_id (concat (map candidates (filter (\<lambda>x. contest_id x = c) cs)))))"

definition reference_init :: "contest list \<Rightarrow> reference_result" where
  "reference_init cs =
     (\<lambda>c. if reference_known_contest cs c
          then Some (\<lambda>k. if reference_known_candidate cs c k then Some 0 else None)
          else None)"

definition reference_increment :: "reference_result \<Rightarrow> string \<Rightarrow> string \<Rightarrow> reference_result" where
  "reference_increment res c k =
     (case res c of
        None \<Rightarrow> res
      | Some inner \<Rightarrow>
          (case inner k of
             None \<Rightarrow> res
           | Some n \<Rightarrow> res(c \<mapsto> inner(k \<mapsto> n + 1))))"

definition reference_selection :: "contest list \<Rightarrow> selection \<Rightarrow> reference_result \<Rightarrow> reference_result" where
  "reference_selection cs s res =
     (if \<not> reference_known_contest cs (contestId s) then res
      else fold (\<lambda>k r. if reference_known_candidate cs (contestId s) k
                       then reference_increment r (contestId s) k else r)
             (selectedCandidateIds s) res)"

definition reference_compute :: "election \<Rightarrow> anonymous_vote list \<Rightarrow> reference_result" where
  "reference_compute e vs =
     fold (\<lambda>v r. fold (reference_selection (contests e)) (selections v) r) vs
       (reference_init (contests e))"

section \<open>Persistent state and the environment of a request\<close>

text \<open>
  The four collections the routes use. \<open>/admin/election/setup\<close> deletes every election
  before it creates one, so the Election collection is at most one document, which is what
  \<open>Election.findOne()\<close> returns. The other collections keep their documents in
  insertion order. \<open>next_oid\<close> is the supply of fresh ObjectIds. With the database goes
  the one part of the memory of the server process that the routes change: its built-in
  objects.
\<close>

record state =
  Election :: "election option"
  BallotAssignment :: "ballot_assignment list"
  AnonymousVote :: "anonymous_vote list"
  AuditLog :: "audit_log list"
  next_oid :: oid
  process_builtins :: builtins

text \<open>
  What a request reads from outside the database: the clock at each \<open>new Date()\<close> and
  \<open>Date.now\<close>, the 48 hexadecimal digits of \<open>crypto.randomBytes(24)\<close>, and whether the
  write of the audit document resolves or rejects.
\<close>

record env =
  now_open :: instant
  now_issued :: instant
  now_submitted :: instant
  now_voted :: instant
  random_hex :: string
  audit_ok :: bool

text \<open>
  The error responses, named by their messages: 500 \<open>No election configured\<close>, and 403
  \<open>Election not open\<close>, \<open>Already voted\<close>, \<open>Admin only\<close>, \<open>Not published yet\<close>. In
  the vocabulary of the specification these are NotFound, NotEligible, AlreadyVoted,
  NotAuthorized and the not-published error. \<open>Thrown\<close> stands for a handler that
  throws: none of the routes catches, none passes the rejection to Express, and no
  response is sent.
\<close>

datatype failure =
    No_election_configured
  | Election_not_open
  | Already_voted
  | Admin_only
  | Not_published_yet
  | Thrown thrown

datatype response =
    BallotJson oid string "contest list"
  | VoteSubmitted string
  | ElectionJson election
  | Message string
  | ResultsJson oid results

type_synonym outcome = "(failure + response) \<times> state"

section \<open>Middleware (middleware.js)\<close>

text \<open>\<open>authMiddleware\<close> has put the authenticated voter into \<open>req.user\<close>.\<close>

definition adminMiddleware :: "voter \<Rightarrow> bool" where
  "adminMiddleware u = (role u = Admin)"

definition electionOpenMiddleware :: "state \<Rightarrow> env \<Rightarrow> failure + election" where
  "electionOpenMiddleware s en =
     (case Election s of
        None \<Rightarrow> Inl No_election_configured
      | Some e \<Rightarrow>
          if \<not> isOpen e \<or> now_open en < startAt e \<or> now_open en > endAt e
          then Inl Election_not_open
          else Inr e)"

definition findAssignment :: "state \<Rightarrow> oid \<Rightarrow> oid \<Rightarrow> ballot_assignment option" where
  "findAssignment s v e =
     find (\<lambda>a. voterId a = v \<and> electionId a = e) (BallotAssignment s)"

definition oneBallotOnlyMiddleware ::
  "state \<Rightarrow> env \<Rightarrow> voter \<Rightarrow> election \<Rightarrow> (failure + ballot_assignment) \<times> state" where
  "oneBallotOnlyMiddleware s en u e =
     (let (record, s') =
        (case findAssignment s (voter_id u) (election_id e) of
           Some r \<Rightarrow> (r, s)
         | None \<Rightarrow>
             (let r = \<lparr>voterId = voter_id u, electionId = election_id e,
                       issuedAt = now_issued en, votedAt = None\<rparr>
              in (r, s\<lparr>BallotAssignment := BallotAssignment s @ [r]\<rparr>)))
      in if votedAt record \<noteq> None then (Inl Already_voted, s') else (Inr record, s'))"

text \<open>\<open>await AuditLog.create(...)\<close>: the document is appended, or the promise rejects.\<close>

definition AuditLog_create :: "state \<Rightarrow> env \<Rightarrow> audit_log \<Rightarrow> thrown + state" where
  "AuditLog_create s en entry =
     (if audit_ok en then Inr (s\<lparr>AuditLog := AuditLog s @ [entry]\<rparr>)
      else Inl AuditWriteFailed)"

definition auditLogger ::
  "string \<Rightarrow> state \<Rightarrow> env \<Rightarrow> voter \<Rightarrow> string \<Rightarrow> string \<Rightarrow> thrown + state" where
  "auditLogger actionName s en u path method =
     AuditLog_create s en
       \<lparr>actor = email u, actorId = Some (voter_id u), action = actionName,
        details = PathMethod path method\<rparr>"

section \<open>Routes (routes.js)\<close>

subsection \<open>GET /ballot/get\<close>

definition ballot_get :: "state \<Rightarrow> env \<Rightarrow> voter \<Rightarrow> outcome" where
  "ballot_get s en u =
     (case electionOpenMiddleware s en of
        Inl f \<Rightarrow> (Inl f, s)
      | Inr e \<Rightarrow>
          (case oneBallotOnlyMiddleware s en u e of
             (Inl f, s1) \<Rightarrow> (Inl f, s1)
           | (Inr record, s1) \<Rightarrow>
               (case auditLogger ''ballot_requested'' s1 en u ''/ballot/get'' ''GET'' of
                  Inl t \<Rightarrow> (Inl (Thrown t), s1)
                | Inr s2 \<Rightarrow>
                    (Inr (BallotJson (election_id e) (el_name e) (contests e)), s2))))"

subsection \<open>POST /vote/submit\<close>

text \<open>
  \<open>AnonymousVote.create\<close> validates the document against its schema and inserts it. The
  schema requires \<open>contestId\<close> of every selection, which an empty string does not
  satisfy, and has a unique index on \<open>receipt\<close>. The arrays \<open>selections\<close> and
  \<open>selectedCandidateIds\<close> are required as well, which every array satisfies, the empty
  one included (Mongoose 5 and later). Nothing in the schema or in the route compares
  the selections with the contests of the election.
\<close>

definition AnonymousVote_create :: "state \<Rightarrow> anonymous_vote \<Rightarrow> thrown + state" where
  "AnonymousVote_create s v =
     (if list_ex (\<lambda>x. contestId x = []) (selections v) then Inl ValidationFailed
      else if receipt v \<in> set (map receipt (AnonymousVote s)) then Inl DuplicateKey
      else Inr (s\<lparr>AnonymousVote := AnonymousVote s @ [v]\<rparr>))"

fun update_first :: "('a \<Rightarrow> bool) \<Rightarrow> ('a \<Rightarrow> 'a) \<Rightarrow> 'a list \<Rightarrow> 'a list" where
  "update_first P f [] = []"
| "update_first P f (x # xs) = (if P x then f x # xs else x # update_first P f xs)"

text \<open>
  \<^verbatim>\<open>req.ballotAssignment.votedAt = new Date(); await req.ballotAssignment.save();\<close>
  writes the document that \<open>findOne\<close> returned to the middleware: the first one of this
  voter and this election.
\<close>

definition save_votedAt :: "state \<Rightarrow> ballot_assignment \<Rightarrow> instant \<Rightarrow> state" where
  "save_votedAt s record t =
     s\<lparr>BallotAssignment :=
         update_first (\<lambda>a. voterId a = voterId record \<and> electionId a = electionId record)
           (\<lambda>a. a\<lparr>votedAt := Some t\<rparr>) (BallotAssignment s)\<rparr>"

text \<open>
  The handler of the route, which runs once the three middleware have let the request
  through; \<open>e\<close> is \<open>req.election\<close> and \<open>record\<close> is \<open>req.ballotAssignment\<close>.
\<close>

definition vote_submit_handler ::
  "state \<Rightarrow> env \<Rightarrow> voter \<Rightarrow> election \<Rightarrow> ballot_assignment \<Rightarrow> selection list \<Rightarrow> outcome" where
  "vote_submit_handler s1 en u e record sel =
     (case AnonymousVote_create s1
             \<lparr>vote_electionId = election_id e, selections = sel,
              submittedAt = now_submitted en, receipt = random_hex en\<rparr> of
        Inl t \<Rightarrow> (Inl (Thrown t), s1)
      | Inr s2 \<Rightarrow>
          (let s3 = save_votedAt s2 record (now_voted en) in
           (case AuditLog_create s3 en
                   \<lparr>actor = email u, actorId = Some (voter_id u),
                    action = ''vote_submitted'',
                    details = ReceiptDetails (random_hex en)\<rparr> of
              Inl t \<Rightarrow> (Inl (Thrown t), s3)
            | Inr s4 \<Rightarrow> (Inr (VoteSubmitted (random_hex en)), s4))))"

definition vote_submit :: "state \<Rightarrow> env \<Rightarrow> voter \<Rightarrow> selection list \<Rightarrow> outcome" where
  "vote_submit s en u sel =
     (case electionOpenMiddleware s en of
        Inl f \<Rightarrow> (Inl f, s)
      | Inr e \<Rightarrow>
          (case oneBallotOnlyMiddleware s en u e of
             (Inl f, s1) \<Rightarrow> (Inl f, s1)
           | (Inr record, s1) \<Rightarrow> vote_submit_handler s1 en u e record sel))"

subsection \<open>The admin routes\<close>

text \<open>
  The body of the setup request. \<open>new Date(startAt)\<close> and \<open>new Date(endAt)\<close> are an
  instant or an invalid date, here \<open>None\<close>.
\<close>

record setup_body =
  body_name :: string
  body_startAt :: "instant option"
  body_endAt :: "instant option"
  body_contests :: "contest list"

text \<open>
  \<open>Election.create\<close> validates the two dates and the required strings of the election,
  of its contests and of their candidates; \<open>isOpen\<close> and \<open>isPublished\<close> take their
  default, false. It runs after \<open>Election.deleteMany({})\<close>.
\<close>

definition Election_valid :: "setup_body \<Rightarrow> bool" where
  "Election_valid b =
     (body_name b \<noteq> [] \<and> body_startAt b \<noteq> None \<and> body_endAt b \<noteq> None \<and>
      list_all (\<lambda>c. contest_id c \<noteq> [] \<and> title c \<noteq> [] \<and>
                  list_all (\<lambda>k. cand_id k \<noteq> [] \<and> cand_name k \<noteq> []) (candidates c))
        (body_contests b))"

definition admin_action :: "state \<Rightarrow> env \<Rightarrow> voter \<Rightarrow> string \<Rightarrow> audit_details \<Rightarrow> thrown + state" where
  "admin_action s en u act d =
     AuditLog_create s en
       \<lparr>actor = email u, actorId = Some (voter_id u), action = act, details = d\<rparr>"

definition admin_election_setup :: "state \<Rightarrow> env \<Rightarrow> voter \<Rightarrow> setup_body \<Rightarrow> outcome" where
  "admin_election_setup s en u b =
     (if \<not> adminMiddleware u then (Inl Admin_only, s)
      else
        (let s1 = s\<lparr>Election := None\<rparr> in
         if \<not> Election_valid b then (Inl (Thrown ValidationFailed), s1)
         else
           (let e = \<lparr>election_id = next_oid s1, el_name = body_name b,
                     startAt = the (body_startAt b), endAt = the (body_endAt b),
                     isOpen = False, isPublished = False, contests = body_contests b\<rparr>;
                s2 = s1\<lparr>Election := Some e, next_oid := next_oid s1 + 1\<rparr>
            in (case admin_action s2 en u ''election_setup'' NoDetails of
                  Inl t \<Rightarrow> (Inl (Thrown t), s2)
                | Inr s3 \<Rightarrow> (Inr (ElectionJson e), s3)))))"

text \<open>
  The routes open, close and publish read \<open>Election.findOne()\<close> and assign to a field of
  the result without a test: with no election configured the assignment throws.
\<close>

definition admin_election_update ::
  "state \<Rightarrow> env \<Rightarrow> voter \<Rightarrow> (election \<Rightarrow> election) \<Rightarrow> string \<Rightarrow> string \<Rightarrow> outcome" where
  "admin_election_update s en u change act msg =
     (if \<not> adminMiddleware u then (Inl Admin_only, s)
      else
        (case Election s of
           None \<Rightarrow> (Inl (Thrown NullElection), s)
         | Some e \<Rightarrow>
             (let s1 = s\<lparr>Election := Some (change e)\<rparr> in
              (case admin_action s1 en u act NoDetails of
                 Inl t \<Rightarrow> (Inl (Thrown t), s1)
               | Inr s2 \<Rightarrow> (Inr (Message msg), s2)))))"

definition admin_election_open :: "state \<Rightarrow> env \<Rightarrow> voter \<Rightarrow> outcome" where
  "admin_election_open s en u =
     admin_election_update s en u (\<lambda>e. e\<lparr>isOpen := True\<rparr>)
       ''election_opened'' ''Election opened''"

definition admin_election_close :: "state \<Rightarrow> env \<Rightarrow> voter \<Rightarrow> outcome" where
  "admin_election_close s en u =
     admin_election_update s en u (\<lambda>e. e\<lparr>isOpen := False\<rparr>)
       ''election_closed'' ''Election closed''"

definition admin_results_publish :: "state \<Rightarrow> env \<Rightarrow> voter \<Rightarrow> outcome" where
  "admin_results_publish s en u =
     admin_election_update s en u (\<lambda>e. e\<lparr>isPublished := True\<rparr>)
       ''results_published'' ''Results published''"

text \<open>\<open>AnonymousVote.find({ electionId: election._id })\<close>\<close>

definition votes_of :: "state \<Rightarrow> election \<Rightarrow> anonymous_vote list" where
  "votes_of s e = filter (\<lambda>v. vote_electionId v = election_id e) (AnonymousVote s)"

definition admin_tally_run :: "state \<Rightarrow> env \<Rightarrow> voter \<Rightarrow> outcome" where
  "admin_tally_run s en u =
     (if \<not> adminMiddleware u then (Inl Admin_only, s)
      else
        (case Election s of
           None \<Rightarrow> (Inl (Thrown NullElection), s)
         | Some e \<Rightarrow>
             (case tally_loops (process_builtins s) e (votes_of s e) of
                (Some x, t) \<Rightarrow> (Inl (Thrown x), s\<lparr>process_builtins := builtin_objects t\<rparr>)
              | (None, t) \<Rightarrow>
                  (let s0 = s\<lparr>process_builtins := builtin_objects t\<rparr> in
                   (case admin_action s0 en u ''tally_run''
                           (TotalVotes (length (votes_of s e))) of
                      Inl x \<Rightarrow> (Inl (Thrown x), s0)
                    | Inr s1 \<Rightarrow> (Inr (ResultsJson (election_id e) (own_results t)), s1))))))"

subsection \<open>GET /results/view\<close>

definition results_view :: "state \<Rightarrow> outcome" where
  "results_view s =
     (case Election s of
        None \<Rightarrow> (Inl (Thrown NullElection), s)
      | Some e \<Rightarrow>
          if \<not> isPublished e then (Inl Not_published_yet, s)
          else
            (case tally_loops (process_builtins s) e (votes_of s e) of
               (Some x, t) \<Rightarrow> (Inl (Thrown x), s\<lparr>process_builtins := builtin_objects t\<rparr>)
             | (None, t) \<Rightarrow>
                 (Inr (ResultsJson (election_id e) (own_results t)),
                  s\<lparr>process_builtins := builtin_objects t\<rparr>)))"

subsection \<open>One request\<close>

text \<open>
  A request served from its first middleware to its response while no other request is
  in flight. The server interleaves the requests it has in flight at every \<open>await\<close>;
  what one request does is then the middleware and the handler above, run with the steps
  of other requests in between.
\<close>

datatype request =
    Ballot_get voter
  | Vote_submit voter "selection list"
  | Admin_election_setup voter setup_body
  | Admin_election_open voter
  | Admin_election_close voter
  | Admin_tally_run voter
  | Admin_results_publish voter
  | Results_view

fun handle :: "state \<Rightarrow> env \<times> request \<Rightarrow> outcome" where
  "handle s (en, Ballot_get u) = ballot_get s en u"
| "handle s (en, Vote_submit u sel) = vote_submit s en u sel"
| "handle s (en, Admin_election_setup u b) = admin_election_setup s en u b"
| "handle s (en, Admin_election_open u) = admin_election_open s en u"
| "handle s (en, Admin_election_close u) = admin_election_close s en u"
| "handle s (en, Admin_tally_run u) = admin_tally_run s en u"
| "handle s (en, Admin_results_publish u) = admin_results_publish s en u"
| "handle s (en, Results_view) = results_view s"

section \<open>Quantities used in the proofs\<close>

text \<open>
  The value of a property of an inner object after \<open>n\<close> selected ids have named it; the
  flag says whether the name is an inherited method.
\<close>

definition after_increments :: "jsval option \<Rightarrow> nat \<Rightarrow> bool \<Rightarrow> jsval option" where
  "after_increments v n inherited =
     (case v of
        Some (Num m) \<Rightarrow> Some (Num (m + n))
      | Some (FnText k) \<Rightarrow> Some (FnText (k + n))
      | None \<Rightarrow> if inherited \<and> 0 < n then Some (FnText n) else None)"

text \<open>
  How often the candidate id \<open>k\<close> is listed for the contest \<open>c\<close>: in a list of
  selections, and in a list of votes. Repetitions inside one array count.
\<close>

definition selected_in :: "string \<Rightarrow> string \<Rightarrow> selection list \<Rightarrow> nat" where
  "selected_in c k ss =
     (\<Sum>s\<leftarrow>ss. if contestId s = c then count_list (selectedCandidateIds s) k else 0)"

definition occurrences :: "string \<Rightarrow> string \<Rightarrow> anonymous_vote list \<Rightarrow> nat" where
  "occurrences c k vs = (\<Sum>v\<leftarrow>vs. selected_in c k (selections v))"

definition all_selections :: "anonymous_vote list \<Rightarrow> selection list" where
  "all_selections vs = concat (map selections vs)"

text \<open>
  A list of selections reaches the prototype chain of \<open>results\<close> when one of its contest
  ids is no own property of \<open>results\<close> but a member name of \<open>Object.prototype\<close>. The
  built-in objects are untouched when every method of \<open>Object.prototype\<close> is the
  function it started as and carries no property \<open>toString\<close> of its own.
\<close>

definition reaches_prototype :: "results \<Rightarrow> selection list \<Rightarrow> bool" where
  "reaches_prototype res ss =
     list_ex (\<lambda>s. res (contestId s) = None \<and> contestId s \<in> set object_prototype_names) ss"

definition untouched :: "builtins \<Rightarrow> bool" where
  "untouched b =
     list_all (\<lambda>m. op_slot b m = Builtin \<and> ''toString'' \<notin> fn_own b m) object_prototype_methods"

text \<open>\<open>results\<close> after every property has been named the given number of times.\<close>

definition counted :: "results \<Rightarrow> (string \<Rightarrow> string \<Rightarrow> nat) \<Rightarrow> results" where
  "counted res n =
     (\<lambda>c. map_option
            (\<lambda>inner k. after_increments (inner k) (n c k) (k \<in> set object_prototype_methods))
            (res c))"



text \<open>
  The reference result in which every known candidate has the given count; and every id
  that occurs in the contests of an election or in a list of votes.
\<close>

definition reference_counted :: "contest list \<Rightarrow> (string \<Rightarrow> string \<Rightarrow> nat) \<Rightarrow> reference_result" where
  "reference_counted cs n =
     (\<lambda>c. if reference_known_contest cs c
          then Some (\<lambda>k. if reference_known_candidate cs c k then Some (n c k) else None)
          else None)"

definition all_ids :: "election \<Rightarrow> anonymous_vote list \<Rightarrow> string list" where
  "all_ids e vs =
     map contest_id (contests e) @
     map cand_id (concat (map candidates (contests e))) @
     map contestId (all_selections vs) @
     concat (map selectedCandidateIds (all_selections vs))"

section \<open>Examples\<close>

text \<open>
  Election E1 with the one contest C1, one selection allowed, and the candidates A and B;
  it is open from instant 100 to instant 200.
\<close>

definition contest_C1 :: contest where
  "contest_C1 =
     \<lparr>contest_id = ''C1'', title = ''Chair'',
      candidates = [\<lparr>cand_id = ''A'', cand_name = ''Ann''\<rparr>,
                    \<lparr>cand_id = ''B'', cand_name = ''Bob''\<rparr>],
      maxSelections = 1\<rparr>"

definition election_E1 :: election where
  "election_E1 =
     \<lparr>election_id = 7, el_name = ''E1'', startAt = 100, endAt = 200,
      isOpen = True, isPublished = False, contests = [contest_C1]\<rparr>"

definition vote_toString :: anonymous_vote where
  "vote_toString =
     \<lparr>vote_electionId = 7,
      selections = [\<lparr>contestId = ''C1'', selectedCandidateIds = [''A'', ''toString'']\<rparr>],
      submittedAt = 150, receipt = ''r1''\<rparr>"

text \<open>
  Two votes for E1 that select the id \<open>toString\<close>: one under the contest id
  \<open>__proto__\<close>, one under C1.
\<close>

definition vote_prototype :: anonymous_vote where
  "vote_prototype =
     \<lparr>vote_electionId = 7,
      selections = [\<lparr>contestId = ''__proto__'', selectedCandidateIds = [''toString'']\<rparr>],
      submittedAt = 150, receipt = ''r2''\<rparr>"

definition vote_C1_toString :: anonymous_vote where
  "vote_C1_toString =
     \<lparr>vote_electionId = 7,
      selections = [\<lparr>contestId = ''C1'', selectedCandidateIds = [''toString'']\<rparr>],
      submittedAt = 160, receipt = ''r3''\<rparr>"



text \<open>Two voters and an admin; states of the database; the environment of a request.\<close>

definition voter1 :: voter where
  "voter1 = \<lparr>voter_id = 1, email = ''v1@example.org'', role = Voter\<rparr>"

definition voter2 :: voter where
  "voter2 = \<lparr>voter_id = 2, email = ''v2@example.org'', role = Voter\<rparr>"

definition admin1 :: voter where
  "admin1 = \<lparr>voter_id = 0, email = ''admin@example.org'', role = Admin\<rparr>"

definition state_E1 :: state where
  "state_E1 =
     \<lparr>Election = Some election_E1, BallotAssignment = [], AnonymousVote = [],
      AuditLog = [], next_oid = 8, process_builtins = pristine\<rparr>"

definition env_at :: "instant \<Rightarrow> string \<Rightarrow> bool \<Rightarrow> env" where
  "env_at t hex ok =
     \<lparr>now_open = t, now_issued = t, now_submitted = t, now_voted = t,
      random_hex = hex, audit_ok = ok\<rparr>"

definition select_A :: "selection list" where
  "select_A = [\<lparr>contestId = ''C1'', selectedCandidateIds = [''A'']\<rparr>]"

definition select_B :: "selection list" where
  "select_B = [\<lparr>contestId = ''C1'', selectedCandidateIds = [''B'']\<rparr>]"

definition state_voted :: state where
  "state_voted =
     \<lparr>Election = Some election_E1,
      BallotAssignment = [\<lparr>voterId = 1, electionId = 7, issuedAt = 150, votedAt = Some 150\<rparr>],
      AnonymousVote = [\<lparr>vote_electionId = 7, selections = select_A,
                        submittedAt = 150, receipt = ''r1''\<rparr>],
      AuditLog = [\<lparr>actor = ''v1@example.org'', actorId = Some 1,
                   action = ''vote_submitted'', details = ReceiptDetails ''r1''\<rparr>],
      next_oid = 8, process_builtins = pristine\<rparr>"

definition vote_for :: "string \<Rightarrow> selection list \<Rightarrow> anonymous_vote" where
  "vote_for hex sel =
     \<lparr>vote_electionId = 7, selections = sel, submittedAt = 150, receipt = hex\<rparr>"

definition select_invalid :: "selection list" where
  "select_invalid =
     [\<lparr>contestId = ''C1'', selectedCandidateIds = [''A'', ''B'', ''X'']\<rparr>,
      \<lparr>contestId = ''ZZ'', selectedCandidateIds = [''Q'']\<rparr>]"




section \<open>The tally in closed form\<close>

lemma after_increments_zero: "after_increments v 0 i = v"
  by (auto simp: after_increments_def split: option.splits jsval.splits)

lemma after_increments_add:
  "after_increments (after_increments v a i) b i = after_increments v (a + b) i"
  by (auto simp: after_increments_def split: option.splits jsval.splits)

lemma pristine_untouched: "untouched pristine"
  by (simp add: untouched_def pristine_def list_all_iff)

lemma untouched_method:
  assumes "untouched b" and "m \<in> set object_prototype_methods"
  shows "method_plus_one b m = Inr 1"
  using assms by (simp add: untouched_def list_all_iff method_plus_one_def)

lemma untouched_prototype: "untouched b \<Longrightarrow> \<not> prototype_plus_one_throws b"
  by (simp add: untouched_def prototype_plus_one_throws_def object_prototype_methods_def)

lemma count_cid_untouched:
  assumes "untouched b"
  shows "count_cid b inner cid =
           (None, inner(cid := after_increments (inner cid) 1
                                 (cid \<in> set object_prototype_methods)))"
proof (cases "inner cid")
  case None
  then have "inner(cid := None) = inner" by (simp add: fun_upd_idem_iff)
  with None assms show ?thesis
    by (simp add: count_cid_def untouched_method untouched_prototype after_increments_def)
next
  case (Some v)
  then show ?thesis
    by (cases v) (simp_all add: count_cid_def after_increments_def)
qed

lemma count_cids_untouched:
  assumes "untouched b"
  shows "for_of (count_cid b) inner ks =
           (None, \<lambda>k. after_increments (inner k) (count_list ks k)
                        (k \<in> set object_prototype_methods))"
proof (induction ks arbitrary: inner)
  case Nil
  show ?case by (simp add: after_increments_zero)
next
  case (Cons a ks)
  let ?inner = "inner(a := after_increments (inner a) 1 (a \<in> set object_prototype_methods))"
  have "for_of (count_cid b) inner (a # ks) = for_of (count_cid b) ?inner ks"
    by (simp only: for_of.simps count_cid_untouched [OF assms]) simp
  also have "\<dots> = (None, \<lambda>k. after_increments (?inner k) (count_list ks k)
                              (k \<in> set object_prototype_methods))"
    by (rule Cons.IH)
  also have "(\<lambda>k. after_increments (?inner k) (count_list ks k)
                    (k \<in> set object_prototype_methods)) =
             (\<lambda>k. after_increments (inner k) (count_list (a # ks) k)
                    (k \<in> set object_prototype_methods))"
    by (auto simp: fun_eq_iff after_increments_add)
  finally show ?case .
qed

lemma counted_zero: "counted res (\<lambda>c k. 0) = res"
proof
  fix c show "counted res (\<lambda>c k. 0) c = res c"
    by (cases "res c") (simp_all add: counted_def after_increments_zero)
qed

lemma counted_counted:
  "counted (counted res m) n = counted res (\<lambda>c k. m c k + n c k)"
proof
  fix c show "counted (counted res m) n c = counted res (\<lambda>c k. m c k + n c k) c"
    by (cases "res c") (simp_all add: counted_def after_increments_add)
qed

lemma reaches_prototype_counted:
  "reaches_prototype (counted res n) ss = reaches_prototype res ss"
  by (simp add: reaches_prototype_def counted_def)

lemma reaches_prototype_append:
  "reaches_prototype res (xs @ ys) = (reaches_prototype res xs \<or> reaches_prototype res ys)"
  by (simp add: reaches_prototype_def)

lemma selected_in_Cons:
  "selected_in c k (s # ss) = selected_in c k [s] + selected_in c k ss"
  by (simp add: selected_in_def)

lemma count_selection_step:
  assumes "res (contestId s) = Some inner"
  shows "res(contestId s \<mapsto>
              (\<lambda>k. after_increments (inner k) (count_list (selectedCandidateIds s) k)
                      (k \<in> set object_prototype_methods))) =
         counted res (\<lambda>c k. selected_in c k [s])"
proof
  fix c
  show "(res(contestId s \<mapsto>
              (\<lambda>k. after_increments (inner k) (count_list (selectedCandidateIds s) k)
                      (k \<in> set object_prototype_methods)))) c =
        counted res (\<lambda>c k. selected_in c k [s]) c"
  proof (cases "c = contestId s")
    case True
    with assms show ?thesis by (simp add: counted_def selected_in_def)
  next
    case False
    then show ?thesis
      by (cases "res c") (auto simp: counted_def selected_in_def after_increments_zero)
  qed
qed

text \<open>
  Selections that do not reach the prototype chain, with the built-in objects untouched:
  the loops end without throwing and every property has been named as often as the
  selections list it.
\<close>

lemma count_selection_plain:
  assumes none: "replaced_prototype t = None" and b: "untouched (builtin_objects t)"
      and stays: "\<not> reaches_prototype (own_results t) [s]"
  shows "count_selection t s =
           (None, t\<lparr>own_results := counted (own_results t) (\<lambda>c k. selected_in c k [s])\<rparr>)"
proof (cases "own_results t (contestId s)")
  case None
  with stays have out: "contestId s \<noteq> ''__proto__''" "contestId s \<notin> set object_prototype_methods"
    by (auto simp: reaches_prototype_def object_prototype_names_def)
  have "counted (own_results t) (\<lambda>c k. selected_in c k [s]) = own_results t"
  proof
    fix c show "counted (own_results t) (\<lambda>c k. selected_in c k [s]) c = own_results t c"
      using None
      by (cases "own_results t c"; cases "c = contestId s")
         (simp_all add: counted_def selected_in_def after_increments_zero)
  qed
  with None none out show ?thesis
    by (simp add: count_selection_def through_object_prototype_def)
next
  case (Some inner)
  then show ?thesis
    by (simp add: count_selection_def count_cids_untouched [OF b] count_selection_step)
qed

lemma count_selections_plain:
  assumes "replaced_prototype t = None" and "untouched (builtin_objects t)"
      and "\<not> reaches_prototype (own_results t) ss"
  shows "for_of count_selection t ss =
           (None, t\<lparr>own_results := counted (own_results t) (\<lambda>c k. selected_in c k ss)\<rparr>)"
  using assms
proof (induction ss arbitrary: t)
  case Nil
  show ?case by (simp add: selected_in_def counted_zero)
next
  case (Cons s ss)
  let ?t = "t\<lparr>own_results := counted (own_results t) (\<lambda>c k. selected_in c k [s])\<rparr>"
  from Cons.prems have here: "\<not> reaches_prototype (own_results t) [s]"
    and rest: "\<not> reaches_prototype (own_results t) ss"
    by (simp_all add: reaches_prototype_def)
  have "for_of count_selection t (s # ss) = for_of count_selection ?t ss"
    by (simp only: for_of.simps count_selection_plain [OF Cons.prems(1,2) here]) simp
  also have "\<dots> = (None, ?t\<lparr>own_results :=
                 counted (own_results ?t) (\<lambda>c k. selected_in c k ss)\<rparr>)"
    using Cons.prems rest by (intro Cons.IH) (simp_all add: reaches_prototype_counted)
  also have "?t\<lparr>own_results := counted (own_results ?t) (\<lambda>c k. selected_in c k ss)\<rparr> =
             t\<lparr>own_results := counted (own_results t) (\<lambda>c k. selected_in c k (s # ss))\<rparr>"
    by (simp add: counted_counted selected_in_Cons [of _ _ s ss])
  finally show ?case .
qed

lemma count_votes_plain:
  assumes "replaced_prototype t = None" and "untouched (builtin_objects t)"
      and "\<not> reaches_prototype (own_results t) (all_selections vs)"
  shows "count_votes t vs =
           (None, t\<lparr>own_results := counted (own_results t) (\<lambda>c k. occurrences c k vs)\<rparr>)"
  using assms
proof (induction vs arbitrary: t)
  case Nil
  show ?case by (simp add: count_votes_def occurrences_def counted_zero)
next
  case (Cons v vs)
  let ?t = "t\<lparr>own_results :=
               counted (own_results t) (\<lambda>c k. selected_in c k (selections v))\<rparr>"
  from Cons.prems have here: "\<not> reaches_prototype (own_results t) (selections v)"
    and rest: "\<not> reaches_prototype (own_results t) (all_selections vs)"
    by (simp_all add: all_selections_def reaches_prototype_append)
  have v: "count_vote t v = (None, ?t)"
    unfolding count_vote_def by (rule count_selections_plain [OF Cons.prems(1,2) here])
  have "count_votes t (v # vs) = count_votes ?t vs"
    unfolding count_votes_def by (simp only: for_of.simps v) simp
  also have "\<dots> = (None, ?t\<lparr>own_results :=
                 counted (own_results ?t) (\<lambda>c k. occurrences c k vs)\<rparr>)"
    using Cons.prems rest by (intro Cons.IH) (simp_all add: reaches_prototype_counted)
  also have "?t\<lparr>own_results := counted (own_results ?t) (\<lambda>c k. occurrences c k vs)\<rparr> =
             t\<lparr>own_results := counted (own_results t) (\<lambda>c k. occurrences c k (v # vs))\<rparr>"
    by (simp add: counted_counted occurrences_def)
  finally show ?case .
qed

lemma occurrences_mset:
  assumes "mset vs = mset vs'"
  shows "occurrences c k vs = occurrences c k vs'"
proof -
  have "occurrences c k vs = sum_mset (image_mset (\<lambda>v. selected_in c k (selections v)) (mset vs))"
    unfolding occurrences_def by (metis mset_map sum_mset_sum_list)
  also have "\<dots> = occurrences c k vs'"
    unfolding occurrences_def assms by (metis mset_map sum_mset_sum_list)
  finally show ?thesis .
qed

lemma reaches_prototype_set:
  "reaches_prototype res ss =
     (\<exists>s \<in> set ss. res (contestId s) = None \<and> contestId s \<in> set object_prototype_names)"
  by (simp add: reaches_prototype_def list_ex_iff)

lemma reaches_prototype_mset:
  assumes "mset vs = mset vs'"
  shows "reaches_prototype res (all_selections vs) = reaches_prototype res (all_selections vs')"
proof -
  from assms have "set vs = set vs'" by (rule mset_eq_setD)
  then show ?thesis by (simp add: reaches_prototype_set all_selections_def)
qed

section \<open>Numbers in the tally\<close>









text \<open>The first loop, for a schema whose contest ids are distinct.\<close>

lemma init_candidates_apply:
  "init_candidates inner ks k =
     (if k \<noteq> ''__proto__'' \<and> k \<in> set (map cand_id ks) then Some (Num 0) else inner k)"
  by (induction ks arbitrary: inner) auto

lemma init_results_builtins: "builtin_objects (init_results t cs) = builtin_objects t"
  by (induction cs arbitrary: t) simp_all

lemma init_results_prototype:
  "''__proto__'' \<notin> set (map contest_id cs) \<Longrightarrow>
     replaced_prototype (init_results t cs) = replaced_prototype t"
  by (induction cs arbitrary: t) auto

lemma init_results_own:
  assumes "distinct (map contest_id cs)" and "c \<noteq> ''__proto__''"
  shows "own_results (init_results t cs) c =
           (case find (\<lambda>x. contest_id x = c) cs of
              None \<Rightarrow> own_results t c
            | Some ct \<Rightarrow> Some (init_candidates Map.empty (candidates ct)))"
  using assms(1)
proof (induction cs arbitrary: t)
  case Nil
  show ?case by simp
next
  case (Cons x xs)
  from Cons.prems have d: "distinct (map contest_id xs)" by simp
  show ?case
  proof (cases "contest_id x = c")
    case True
    with Cons.prems have "find (\<lambda>y. contest_id y = c) xs = None"
      by (auto simp: find_None_iff image_iff)
    with True assms(2) show ?thesis by (simp add: Cons.IH [OF d])
  next
    case False
    then show ?thesis by (auto simp: Cons.IH [OF d] split: option.splits)
  qed
qed




lemmas loop_defs =
  compute_results_def tally_loops_def count_votes_def count_vote_def count_selection_def
  count_cid_def count_cid_prototype_def method_plus_one_def pristine_def
  object_prototype_methods_def

section \<open>The reference tally in closed form\<close>

lemma reference_init_counted: "reference_init cs = reference_counted cs (\<lambda>c k. 0)"
  by (simp add: reference_init_def reference_counted_def)

lemma reference_increment_counted:
  assumes "reference_known_contest cs c" and "reference_known_candidate cs c k"
  shows "reference_increment (reference_counted cs n) c k =
         reference_counted cs (\<lambda>c' k'. n c' k' + (if c' = c \<and> k' = k then 1 else 0))"
  using assms
  by (auto simp: reference_increment_def reference_counted_def fun_eq_iff)

lemma reference_ids_counted:
  assumes "reference_known_contest cs c"
  shows "fold (\<lambda>k r. if reference_known_candidate cs c k then reference_increment r c k else r)
           ks (reference_counted cs n) =
         reference_counted cs (\<lambda>c' k'. n c' k' + (if c' = c then count_list ks k' else 0))"
proof (induction ks arbitrary: n)
  case Nil
  have "(\<lambda>c' k'. n c' k' + (if c' = c then count_list [] k' else 0)) = n"
    by (simp add: fun_eq_iff)
  then show ?case by simp
next
  case (Cons k ks)
  show ?case
  proof (cases "reference_known_candidate cs c k")
    case True
    have "(\<lambda>c' k'. n c' k' + (if c' = c \<and> k' = k then 1 else 0) +
                     (if c' = c then count_list ks k' else 0)) =
          (\<lambda>c' k'. n c' k' + (if c' = c then count_list (k # ks) k' else 0))"
      by (auto simp: fun_eq_iff)
    with True show ?thesis
      by (simp add: reference_increment_counted [OF assms True] Cons.IH)
  next
    case False
    have "reference_counted cs (\<lambda>c' k'. n c' k' + (if c' = c then count_list ks k' else 0)) =
          reference_counted cs (\<lambda>c' k'. n c' k' + (if c' = c then count_list (k # ks) k' else 0))"
      using False by (auto simp: reference_counted_def fun_eq_iff)
    with False show ?thesis
      by (simp add: Cons.IH)
  qed
qed

lemma reference_selection_counted:
  "reference_selection cs s (reference_counted cs n) =
     reference_counted cs (\<lambda>c k. n c k + selected_in c k [s])"
proof (cases "reference_known_contest cs (contestId s)")
  case True
  have "(\<lambda>c' k'. n c' k' + (if c' = contestId s then count_list (selectedCandidateIds s) k' else 0)) =
        (\<lambda>c k. n c k + selected_in c k [s])"
    by (auto simp: fun_eq_iff selected_in_def)
  with True show ?thesis
    by (simp add: reference_selection_def reference_ids_counted)
next
  case False
  then have "reference_counted cs (\<lambda>c k. n c k + selected_in c k [s]) = reference_counted cs n"
    by (auto simp: reference_counted_def fun_eq_iff selected_in_def)
  with False show ?thesis
    by (simp add: reference_selection_def)
qed

lemma reference_selections_counted:
  "fold (reference_selection cs) ss (reference_counted cs n) =
     reference_counted cs (\<lambda>c k. n c k + selected_in c k ss)"
proof (induction ss arbitrary: n)
  case Nil
  show ?case by (simp add: selected_in_def)
next
  case (Cons s ss)
  have "(\<lambda>c k. n c k + selected_in c k [s] + selected_in c k ss) =
        (\<lambda>c k. n c k + selected_in c k (s # ss))"
    by (simp add: fun_eq_iff selected_in_def)
  then show ?case
    by (simp add: reference_selection_counted Cons.IH)
qed

lemma reference_votes_counted:
  "fold (\<lambda>v r. fold (reference_selection cs) (selections v) r) vs (reference_counted cs n) =
     reference_counted cs (\<lambda>c k. n c k + occurrences c k vs)"
proof (induction vs arbitrary: n)
  case Nil
  show ?case by (simp add: occurrences_def)
next
  case (Cons v vs)
  have "(\<lambda>c k. n c k + selected_in c k (selections v) + occurrences c k vs) =
        (\<lambda>c k. n c k + occurrences c k (v # vs))"
    by (simp add: fun_eq_iff occurrences_def)
  then show ?case
    by (simp add: reference_selections_counted Cons.IH)
qed

lemma reference_compute_closed:
  "reference_compute e vs = reference_counted (contests e) (\<lambda>c k. occurrences c k vs)"
  by (simp add: reference_compute_def reference_init_counted reference_votes_counted)

lemma filter_distinct_key:
  assumes "distinct (map f xs)"
  shows "filter (\<lambda>x. f x = c) xs = (case find (\<lambda>x. f x = c) xs of None \<Rightarrow> [] | Some x \<Rightarrow> [x])"
  using assms
proof (induction xs)
  case Nil
  show ?case by simp
next
  case (Cons x xs)
  show ?case
  proof (cases "f x = c")
    case True
    with Cons.prems have "\<forall>y \<in> set xs. f y \<noteq> c" by (auto simp: image_iff)
    then have "filter (\<lambda>x. f x = c) xs = []" by (simp add: filter_empty_conv)
    with True show ?thesis by simp
  next
    case False
    with Cons show ?thesis by simp
  qed
qed

lemma init_results_own_prototype:
  "''__proto__'' \<notin> set (map contest_id cs) \<Longrightarrow>
     own_results (init_results t cs) ''__proto__'' = own_results t ''__proto__''"
  by (induction cs arbitrary: t) auto

lemma init_results_own_known:
  "c \<in> set (map contest_id cs) \<Longrightarrow> c \<noteq> ''__proto__'' \<Longrightarrow>
     own_results (init_results t cs) c \<noteq> None"
proof -
  have "own_results t c \<noteq> None \<or> (c \<in> set (map contest_id cs) \<and> c \<noteq> ''__proto__'') \<Longrightarrow>
        own_results (init_results t cs) c \<noteq> None" for t
    by (induction cs arbitrary: t) auto
  then show "c \<in> set (map contest_id cs) \<Longrightarrow> c \<noteq> ''__proto__'' \<Longrightarrow>
     own_results (init_results t cs) c \<noteq> None"
    by blast
qed

text \<open>
  Away from the member names of \<open>Object.prototype\<close>, and with the built-in objects
  untouched, the loops end without throwing, leave the built-in objects as they were, and
  hold for every property the value that the number of its listings gives.
\<close>

lemma tally_loops_plain:
  assumes proto: "''__proto__'' \<notin> set (map contest_id (contests e))"
      and b: "untouched b"
      and plain: "set (map contestId (all_selections vs)) \<inter> set object_prototype_names = {}"
  shows "tally_loops b e vs =
           (None,
            \<lparr>own_results =
               counted
                 (own_results
                    (init_results
                       \<lparr>own_results = Map.empty, replaced_prototype = None, builtin_objects = b\<rparr>
                       (contests e)))
                 (\<lambda>c k. occurrences c k vs),
             replaced_prototype = None, builtin_objects = b\<rparr>)"
proof -
  let ?t0 = "init_results
               \<lparr>own_results = Map.empty, replaced_prototype = None, builtin_objects = b\<rparr>
               (contests e)"
  have r: "replaced_prototype ?t0 = None"
    by (simp add: init_results_prototype [OF proto])
  have u: "untouched (builtin_objects ?t0)"
    by (simp add: init_results_builtins b)
  have stays: "\<not> reaches_prototype (own_results ?t0) (all_selections vs)"
    using plain by (auto simp: reaches_prototype_set)
  have "?t0\<lparr>own_results := counted (own_results ?t0) (\<lambda>c k. occurrences c k vs)\<rparr> =
        \<lparr>own_results = counted (own_results ?t0) (\<lambda>c k. occurrences c k vs),
         replaced_prototype = None, builtin_objects = b\<rparr>"
    by (rule tally.equality) (simp_all add: r init_results_builtins)
  with count_votes_plain [OF r u stays] show ?thesis
    by (simp add: tally_loops_def)
qed

text \<open>
  The order of the votes does not matter where no selection names a member of
  \<open>Object.prototype\<close> as its contest and no contest of the schema has the id
  \<open>__proto__\<close>.
\<close>

lemma compute_results_permutation_plain:
  assumes same: "mset vs = mset vs'"
      and proto: "''__proto__'' \<notin> set (map contest_id (contests e))"
      and plain: "set (map contestId (all_selections vs)) \<inter> set object_prototype_names = {}"
  shows "compute_results e vs = compute_results e vs'"
proof -
  from same have "set vs = set vs'" by (rule mset_eq_setD)
  with plain
  have plain': "set (map contestId (all_selections vs')) \<inter> set object_prototype_names = {}"
    by (simp add: all_selections_def)
  have "(\<lambda>c k. occurrences c k vs) = (\<lambda>c k. occurrences c k vs')"
    by (simp add: fun_eq_iff occurrences_mset [OF same])
  then show ?thesis
    by (simp add: compute_results_def
          tally_loops_plain [OF proto pristine_untouched plain]
          tally_loops_plain [OF proto pristine_untouched plain'])
qed

text \<open>
  Claim C5. The tally depends on the order of the votes. Take election E1 and two votes:
  one selects \<open>toString\<close> under the contest id \<open>__proto__\<close>, the other selects
  \<open>toString\<close> under C1. \<open>results['__proto__']\<close> is \<open>Object.prototype\<close>, so the first
  vote replaces the method \<open>Object.prototype.toString\<close> by a string, its text followed
  by the digit 1. Counted after it, the second vote reads that string through the inner
  object of C1 and stores it with one more digit; counted before it, the second vote
  reads the method and stores its text with one digit. The two sequences hold the same
  votes and the results differ in the property \<open>toString\<close> of C1.
\<close>

theorem tally_depends_on_vote_order:
  "mset [vote_prototype, vote_C1_toString] = mset [vote_C1_toString, vote_prototype] \<and>
   compute_results election_E1 [vote_prototype, vote_C1_toString] =
     Inr [''C1'' \<mapsto> [''A'' \<mapsto> Num 0, ''B'' \<mapsto> Num 0, ''toString'' \<mapsto> FnText 2]] \<and>
   compute_results election_E1 [vote_C1_toString, vote_prototype] =
     Inr [''C1'' \<mapsto> [''A'' \<mapsto> Num 0, ''B'' \<mapsto> Num 0, ''toString'' \<mapsto> FnText 1]]"
proof (intro conjI)
  show "mset [vote_prototype, vote_C1_toString] = mset [vote_C1_toString, vote_prototype]"
    by (simp add: add.commute)
  show "compute_results election_E1 [vote_prototype, vote_C1_toString] =
     Inr [''C1'' \<mapsto> [''A'' \<mapsto> Num 0, ''B'' \<mapsto> Num 0, ''toString'' \<mapsto> FnText 2]]"
    by (simp add: loop_defs election_E1_def contest_C1_def vote_prototype_def
          vote_C1_toString_def numeral_2_eq_2)
  show "compute_results election_E1 [vote_C1_toString, vote_prototype] =
     Inr [''C1'' \<mapsto> [''A'' \<mapsto> Num 0, ''B'' \<mapsto> Num 0, ''toString'' \<mapsto> FnText 1]]"
    by (simp add: loop_defs election_E1_def contest_C1_def vote_prototype_def
          vote_C1_toString_def)
qed

lemma selected_in_unselected:
  "k \<notin> set (concat (map selectedCandidateIds ss)) \<Longrightarrow> selected_in c k ss = 0"
proof (induction ss)
  case Nil
  show ?case by (simp add: selected_in_def)
next
  case (Cons s ss)
  then have "count_list (selectedCandidateIds s) k = 0" and "selected_in c k ss = 0"
    by simp_all
  then show ?case by (simp add: selected_in_Cons [of c k s ss]) (simp add: selected_in_def)
qed

lemma occurrences_unselected:
  assumes "k \<notin> set (concat (map selectedCandidateIds (all_selections vs)))"
  shows "occurrences c k vs = 0"
  using assms
proof (induction vs)
  case Nil
  show ?case by (simp add: occurrences_def)
next
  case (Cons v vs)
  then have "k \<notin> set (concat (map selectedCandidateIds (selections v)))"
    and "k \<notin> set (concat (map selectedCandidateIds (all_selections vs)))"
    by (simp_all add: all_selections_def)
  with Cons.IH have "selected_in c k (selections v) = 0" and "occurrences c k vs = 0"
    by (simp_all add: selected_in_unselected)
  then show ?case by (simp add: occurrences_def)
qed

text \<open>
  Where the contest ids of the election are distinct and no id, of the election or of the
  votes, is a name of \<open>Object.prototype\<close>, the loops of the routes compute the reference
  tally: every count is a number, the one of the reference.
\<close>

lemma compute_results_refines_reference:
  assumes dist: "distinct (map contest_id (contests e))"
      and plain: "set (all_ids e vs) \<inter> set object_prototype_names = {}"
  shows "compute_results e vs =
           Inr (\<lambda>c. map_option (\<lambda>inner k. map_option Num (inner k)) (reference_compute e vs c))"
proof -
  let ?cs = "contests e"
  let ?t0 = "init_results
               \<lparr>own_results = Map.empty, replaced_prototype = None,
                builtin_objects = pristine\<rparr> ?cs"
  let ?res0 = "own_results ?t0"
  have proto: "''__proto__'' \<in> set object_prototype_names"
    by (simp add: object_prototype_names_def)
  have methods: "k \<in> set object_prototype_names" if "k \<in> set object_prototype_methods" for k
    using that by (simp add: object_prototype_names_def)
  from plain proto have np: "''__proto__'' \<notin> set (map contest_id ?cs)"
    by (auto simp: all_ids_def)
  have res0: "?res0 c = (case find (\<lambda>x. contest_id x = c) ?cs of
                     None \<Rightarrow> None
                   | Some ct \<Rightarrow> Some (init_candidates Map.empty (candidates ct)))" for c
  proof (cases "c = ''__proto__''")
    case True
    from np have "\<forall>x \<in> set ?cs. contest_id x \<noteq> ''__proto__''"
      by (metis image_eqI set_map)
    with True have "find (\<lambda>x. contest_id x = c) ?cs = None"
      by (simp add: find_None_iff)
    with True np show ?thesis by (simp add: init_results_own_prototype)
  next
    case False
    show ?thesis
      by (simp add: init_results_own [OF dist False] split: option.splits)
  qed
  have sel: "set (map contestId (all_selections vs)) \<inter> set object_prototype_names = {}"
    using plain by (auto simp: all_ids_def)
  have code: "compute_results e vs = Inr (counted ?res0 (\<lambda>c k. occurrences c k vs))"
    by (simp add: compute_results_def tally_loops_plain [OF np pristine_untouched sel])
  have "counted ?res0 (\<lambda>c k. occurrences c k vs) c =
        map_option (\<lambda>inner k. map_option Num (inner k))
          (reference_counted ?cs (\<lambda>c k. occurrences c k vs) c)" for c
  proof (cases "find (\<lambda>x. contest_id x = c) ?cs")
    case None
    then have "\<not> reference_known_contest ?cs c"
      by (auto simp: reference_known_contest_def find_None_iff)
    with None show ?thesis
      by (simp add: counted_def reference_counted_def res0)
  next
    case (Some ct)
    then have ct: "ct \<in> set ?cs" "contest_id ct = c"
      by (auto simp: find_Some_iff)
    then have known: "reference_known_contest ?cs c"
      by (auto simp: reference_known_contest_def)
    have cand: "reference_known_candidate ?cs c k \<longleftrightarrow> k \<in> set (map cand_id (candidates ct))" for k
      by (simp add: reference_known_candidate_def filter_distinct_key [OF dist] Some)
    have inner_k: "after_increments (init_candidates Map.empty (candidates ct) k)
                   (occurrences c k vs) (k \<in> set object_prototype_methods) =
                 map_option Num
                   (if reference_known_candidate ?cs c k then Some (occurrences c k vs) else None)" for k
    proof (cases "k \<in> set (map cand_id (candidates ct))")
      case True
      with ct(1) have "k \<in> set (all_ids e vs)" by (auto simp: all_ids_def)
      with plain proto have "k \<noteq> ''__proto__''" by auto
      with True show ?thesis
        by (simp add: init_candidates_apply cand after_increments_def)
    next
      case False
      have "occurrences c k vs = 0" if "k \<in> set object_prototype_methods"
      proof (rule occurrences_unselected)
        from methods [OF that] plain
        show "k \<notin> set (concat (map selectedCandidateIds (all_selections vs)))"
          by (auto simp: all_ids_def)
      qed
      with False show ?thesis
        by (auto simp: init_candidates_apply cand after_increments_def)
    qed
    show ?thesis
      using Some known by (simp add: counted_def reference_counted_def inner_k res0)
  qed
  then have "counted ?res0 (\<lambda>c k. occurrences c k vs) =
             (\<lambda>c. map_option (\<lambda>inner k. map_option Num (inner k)) (reference_compute e vs c))"
    by (simp add: fun_eq_iff reference_compute_closed)
  with code show ?thesis by simp
qed

text \<open>
  Claim C4. For the names of \<open>Object.prototype\<close> the tally is not the reference
  algorithm. Take election E1 and the one vote that selects, in contest C1, the candidate
  A and the id \<open>toString\<close>, which is not a candidate. The reference skips the unknown
  id. The loops of the routes read the inherited method under that name, find it
  different from \<open>undefined\<close>, and store \<open>toString\<close> as a property of the result for
  C1, holding a string.
\<close>

theorem tally_keeps_inherited_name:
  "compute_results election_E1 [vote_toString] =
     Inr [''C1'' \<mapsto> [''A'' \<mapsto> Num 1, ''B'' \<mapsto> Num 0, ''toString'' \<mapsto> FnText 1]] \<and>
   reference_compute election_E1 [vote_toString] = [''C1'' \<mapsto> [''A'' \<mapsto> 1, ''B'' \<mapsto> 0]]"
proof
  have "[''A'' \<mapsto> Num 0, ''B'' \<mapsto> Num 0, ''A'' \<mapsto> Num 1, ''toString'' \<mapsto> FnText 1] =
        [''A'' \<mapsto> Num 1, ''B'' \<mapsto> Num 0, ''toString'' \<mapsto> FnText 1]"
    by (simp add: fun_eq_iff)
  then show "compute_results election_E1 [vote_toString] =
     Inr [''C1'' \<mapsto> [''A'' \<mapsto> Num 1, ''B'' \<mapsto> Num 0, ''toString'' \<mapsto> FnText 1]]"
    by (simp add: loop_defs election_E1_def contest_C1_def vote_toString_def)
  show "reference_compute election_E1 [vote_toString] = [''C1'' \<mapsto> [''A'' \<mapsto> 1, ''B'' \<mapsto> 0]]"
    by (auto simp: fun_eq_iff reference_compute_def election_E1_def contest_C1_def
          vote_toString_def reference_init_def reference_selection_def
          reference_known_contest_def reference_known_candidate_def reference_increment_def)
qed

section \<open>The ballot ledger\<close>

lemma find_append_Some: "find P xs = Some a \<Longrightarrow> find P (xs @ ys) = Some a"
  by (induction xs) auto

lemma find_append_None: "find P xs = None \<Longrightarrow> find P (xs @ ys) = find P ys"
  by (induction xs) auto

lemma find_update_first_other:
  assumes "\<And>x. Q x \<Longrightarrow> \<not> P x \<and> \<not> P (f x)"
  shows "find P (update_first Q f xs) = find P xs"
  using assms by (induction xs) auto

lemma find_update_first_same:
  assumes "\<And>x. P (f x) = P x"
  shows "find P (update_first P f xs) = map_option f (find P xs)"
  using assms by (induction xs) auto

lemma electionOpenMiddleware_Inr:
  "electionOpenMiddleware s en = Inr e \<longleftrightarrow>
     Election s = Some e \<and> isOpen e \<and> startAt e \<le> now_open en \<and> now_open en \<le> endAt e"
  by (auto simp: electionOpenMiddleware_def split: option.splits)

lemma oneBallotOnlyMiddleware_voted:
  assumes "findAssignment s (voter_id u) (election_id e) = Some a" and "votedAt a \<noteq> None"
  shows "oneBallotOnlyMiddleware s en u e = (Inl Already_voted, s)"
  using assms by (simp add: oneBallotOnlyMiddleware_def)

lemma oneBallotOnlyMiddleware_pending:
  assumes "findAssignment s (voter_id u) (election_id e) = Some a" and "votedAt a = None"
  shows "oneBallotOnlyMiddleware s en u e = (Inr a, s)"
  using assms by (simp add: oneBallotOnlyMiddleware_def)

lemma oneBallotOnlyMiddleware_new:
  assumes "findAssignment s (voter_id u) (election_id e) = None"
  shows "oneBallotOnlyMiddleware s en u e =
           (Inr \<lparr>voterId = voter_id u, electionId = election_id e,
                 issuedAt = now_issued en, votedAt = None\<rparr>,
            s\<lparr>BallotAssignment := BallotAssignment s @
                 [\<lparr>voterId = voter_id u, electionId = election_id e,
                   issuedAt = now_issued en, votedAt = None\<rparr>]\<rparr>)"
  using assms by (simp add: oneBallotOnlyMiddleware_def Let_def)

lemma oneBallotOnlyMiddleware_keeps:
  assumes "findAssignment s v x = Some a"
  shows "findAssignment (snd (oneBallotOnlyMiddleware s en u e)) v x = Some a"
  using assms
  by (auto simp: oneBallotOnlyMiddleware_def findAssignment_def Let_def find_append_Some
           split: option.splits)

lemma oneBallotOnlyMiddleware_rest:
  "Election (snd (oneBallotOnlyMiddleware s en u e)) = Election s \<and>
   AnonymousVote (snd (oneBallotOnlyMiddleware s en u e)) = AnonymousVote s \<and>
   AuditLog (snd (oneBallotOnlyMiddleware s en u e)) = AuditLog s \<and>
   next_oid (snd (oneBallotOnlyMiddleware s en u e)) = next_oid s"
  by (auto simp: oneBallotOnlyMiddleware_def Let_def split: option.splits)

lemma oneBallotOnlyMiddleware_Inr:
  assumes "oneBallotOnlyMiddleware s en u e = (Inr r, s1)"
  shows "findAssignment s1 (voter_id u) (election_id e) = Some r \<and> votedAt r = None \<and>
         voterId r = voter_id u \<and> electionId r = election_id e"
  using assms
  by (auto simp: oneBallotOnlyMiddleware_def findAssignment_def Let_def find_append_None
           split: option.splits if_splits dest: find_Some_iff [THEN iffD1])

lemma AuditLog_create_Inr:
  "AuditLog_create s en entry = Inr s' \<Longrightarrow>
     audit_ok en \<and> s' = s\<lparr>AuditLog := AuditLog s @ [entry]\<rparr>"
  by (auto simp: AuditLog_create_def split: if_splits)

lemma AnonymousVote_create_Inr:
  "AnonymousVote_create s v = Inr s' \<Longrightarrow> s' = s\<lparr>AnonymousVote := AnonymousVote s @ [v]\<rparr>"
  by (auto simp: AnonymousVote_create_def split: if_splits)

lemma save_votedAt_other:
  assumes "findAssignment s v x = Some a"
      and "voterId r \<noteq> v \<or> electionId r \<noteq> x"
  shows "findAssignment (save_votedAt s r t) v x = Some a"
proof -
  have "find (\<lambda>a. voterId a = v \<and> electionId a = x)
          (update_first (\<lambda>a. voterId a = voterId r \<and> electionId a = electionId r)
             (\<lambda>a. a\<lparr>votedAt := Some t\<rparr>) (BallotAssignment s)) =
        find (\<lambda>a. voterId a = v \<and> electionId a = x) (BallotAssignment s)"
    using assms(2) by (intro find_update_first_other) auto
  with assms(1) show ?thesis
    by (simp add: findAssignment_def save_votedAt_def)
qed

lemma save_votedAt_same:
  assumes "findAssignment s (voterId r) (electionId r) = Some a"
  shows "findAssignment (save_votedAt s r t) (voterId r) (electionId r) =
           Some (a\<lparr>votedAt := Some t\<rparr>)"
proof -
  have "find (\<lambda>a. voterId a = voterId r \<and> electionId a = electionId r)
          (update_first (\<lambda>a. voterId a = voterId r \<and> electionId a = electionId r)
             (\<lambda>a. a\<lparr>votedAt := Some t\<rparr>) (BallotAssignment s)) =
        map_option (\<lambda>a. a\<lparr>votedAt := Some t\<rparr>)
          (find (\<lambda>a. voterId a = voterId r \<and> electionId a = electionId r) (BallotAssignment s))"
    by (intro find_update_first_same) simp
  with assms show ?thesis
    by (simp add: findAssignment_def save_votedAt_def)
qed

lemma vote_submit_cases:
  obtains
    (gate) f where "electionOpenMiddleware s en = Inl f" "vote_submit s en u sel = (Inl f, s)"
  | (ledger) e f where "electionOpenMiddleware s en = Inr e"
      "oneBallotOnlyMiddleware s en u e = (Inl f, s)" "vote_submit s en u sel = (Inl f, s)"
  | (store) e r s1 t where "electionOpenMiddleware s en = Inr e"
      "oneBallotOnlyMiddleware s en u e = (Inr r, s1)"
      "vote_submit s en u sel = (Inl (Thrown t), s1)"
  | (saved) e r s1 s2 where "electionOpenMiddleware s en = Inr e"
      "oneBallotOnlyMiddleware s en u e = (Inr r, s1)"
      "s2 = save_votedAt
              (s1\<lparr>AnonymousVote := AnonymousVote s1 @
                    [\<lparr>vote_electionId = election_id e, selections = sel,
                      submittedAt = now_submitted en, receipt = random_hex en\<rparr>]\<rparr>)
              r (now_voted en)"
      "vote_submit s en u sel = (Inl (Thrown AuditWriteFailed), s2) \<and> \<not> audit_ok en \<or>
       vote_submit s en u sel =
         (Inr (VoteSubmitted (random_hex en)),
          s2\<lparr>AuditLog := AuditLog s2 @
                [\<lparr>actor = email u, actorId = Some (voter_id u), action = ''vote_submitted'',
                  details = ReceiptDetails (random_hex en)\<rparr>]\<rparr>) \<and> audit_ok en"
proof (cases "electionOpenMiddleware s en")
  case (Inl f)
  then show ?thesis by (intro gate [of f]) (simp_all add: vote_submit_def vote_submit_handler_def)
next
  case (Inr e)
  obtain o1 s1 where m: "oneBallotOnlyMiddleware s en u e = (o1, s1)"
    by (cases "oneBallotOnlyMiddleware s en u e")
  show ?thesis
  proof (cases o1)
    case (Inl f)
    with m have "s1 = s"
      by (auto simp: oneBallotOnlyMiddleware_def Let_def split: option.splits if_splits)
    with Inl m Inr show ?thesis
      by (intro ledger [of e f]) (simp_all add: vote_submit_def vote_submit_handler_def)
  next
    case r: (Inr r)
    let ?v = "\<lparr>vote_electionId = election_id e, selections = sel,
               submittedAt = now_submitted en, receipt = random_hex en\<rparr>"
    show ?thesis
    proof (cases "AnonymousVote_create s1 ?v")
      case (Inl t)
      with r m Inr show ?thesis
        by (intro store [of e r s1 t]) (simp_all add: vote_submit_def vote_submit_handler_def)
    next
      case c: (Inr s2)
      then have s2: "s2 = s1\<lparr>AnonymousVote := AnonymousVote s1 @ [?v]\<rparr>"
        by (rule AnonymousVote_create_Inr)
      show ?thesis
        using r m Inr c s2
        by (intro saved [of e r s1 "save_votedAt s2 r (now_voted en)"])
           (auto simp: vote_submit_def vote_submit_handler_def AuditLog_create_def Let_def)
    qed
  qed
qed

lemma vote_submit_Inr:
  assumes "vote_submit s en u sel = (Inr resp, s')"
  obtains e r where "electionOpenMiddleware s en = Inr e"
    and "findAssignment s' (voter_id u) (election_id e) = Some (r\<lparr>votedAt := Some (now_voted en)\<rparr>)"
    and "resp = VoteSubmitted (random_hex en)"
    and "AnonymousVote s' = AnonymousVote s @
           [\<lparr>vote_electionId = election_id e, selections = sel,
             submittedAt = now_submitted en, receipt = random_hex en\<rparr>]"
    and "AuditLog s' = AuditLog s @
           [\<lparr>actor = email u, actorId = Some (voter_id u), action = ''vote_submitted'',
             details = ReceiptDetails (random_hex en)\<rparr>]"
proof (cases rule: vote_submit_cases [of s en u sel])
  case (gate f)
  with assms show ?thesis by simp
next
  case (ledger e f)
  with assms show ?thesis by simp
next
  case (store e r s1 t)
  with assms show ?thesis by simp
next
  case (saved e r s1 s2)
  let ?v = "\<lparr>vote_electionId = election_id e, selections = sel,
             submittedAt = now_submitted en, receipt = random_hex en\<rparr>"
  from oneBallotOnlyMiddleware_Inr [OF saved(2)]
  have r: "findAssignment s1 (voter_id u) (election_id e) = Some r"
    "voterId r = voter_id u" "electionId r = election_id e" by simp_all
  then have "findAssignment (s1\<lparr>AnonymousVote := AnonymousVote s1 @ [?v]\<rparr>)
               (voterId r) (electionId r) = Some r"
    by (simp add: findAssignment_def)
  then have "findAssignment s2 (voterId r) (electionId r) = Some (r\<lparr>votedAt := Some (now_voted en)\<rparr>)"
    unfolding saved(3) by (rule save_votedAt_same)
  moreover from saved(4) assms
  have s': "s' = s2\<lparr>AuditLog := AuditLog s2 @
                [\<lparr>actor = email u, actorId = Some (voter_id u), action = ''vote_submitted'',
                  details = ReceiptDetails (random_hex en)\<rparr>]\<rparr>"
    and resp: "resp = VoteSubmitted (random_hex en)" by auto
  moreover from oneBallotOnlyMiddleware_rest [of s en u e] saved(2)
  have "AnonymousVote s1 = AnonymousVote s" "AuditLog s1 = AuditLog s" by simp_all
  ultimately show ?thesis
    using saved(1) r
    by (intro that [of e r]) (simp_all add: findAssignment_def saved(3) save_votedAt_def)
qed

text \<open>
  Served one after the other, a second submission is refused: the first one has saved
  \<open>votedAt\<close> before the second one reads the assignment.
\<close>

lemma later_submission_refused:
  assumes first: "vote_submit s en u sel = (Inr resp, s1)"
      and gate1: "electionOpenMiddleware s en = Inr e"
      and gate2: "electionOpenMiddleware s1 en' = Inr e'"
      and same: "election_id e' = election_id e" "voter_id u' = voter_id u"
  shows "\<exists>a. findAssignment s1 (voter_id u) (election_id e) = Some a \<and>
             votedAt a = Some (now_voted en) \<and>
             vote_submit s1 en' u' sel' = (Inl Already_voted, s1)"
proof -
  from first obtain e0 r where "electionOpenMiddleware s en = Inr e0"
    and f: "findAssignment s1 (voter_id u) (election_id e0) =
              Some (r\<lparr>votedAt := Some (now_voted en)\<rparr>)"
    by (rule vote_submit_Inr)
  with gate1 have "e0 = e" by simp
  let ?a = "r\<lparr>votedAt := Some (now_voted en)\<rparr>"
  from f \<open>e0 = e\<close> have a1: "findAssignment s1 (voter_id u) (election_id e) = Some ?a" by simp
  with same have "oneBallotOnlyMiddleware s1 en' u' e' = (Inl Already_voted, s1)"
    by (intro oneBallotOnlyMiddleware_voted [of _ _ _ ?a]) simp_all
  with gate2 have "vote_submit s1 en' u' sel' = (Inl Already_voted, s1)"
    by (simp add: vote_submit_def)
  with a1 show ?thesis by auto
qed

section \<open>The routes\<close>

text \<open>
  Claim C6. With an election configured, the election check lets a request through if and
  only if \<open>isOpen\<close> holds and \<open>startAt \<le> now \<le> endAt\<close>, both bounds included. A
  ballot request and a vote submission are answered \<open>Election not open\<close>, with the state
  unchanged, exactly when that fails: also when \<open>isOpen\<close> is true and \<open>startAt\<close> lies
  in the future or \<open>endAt\<close> in the past.
\<close>

theorem eligibility_is_window_check:
  assumes "Election s = Some e"
  shows "(electionOpenMiddleware s en = Inr e \<longleftrightarrow>
            isOpen e \<and> startAt e \<le> now_open en \<and> now_open en \<le> endAt e) \<and>
         (electionOpenMiddleware s en = Inl Election_not_open \<longleftrightarrow>
            \<not> (isOpen e \<and> startAt e \<le> now_open en \<and> now_open en \<le> endAt e)) \<and>
         (ballot_get s en u = (Inl Election_not_open, s) \<longleftrightarrow>
            \<not> (isOpen e \<and> startAt e \<le> now_open en \<and> now_open en \<le> endAt e)) \<and>
         (vote_submit s en u sel = (Inl Election_not_open, s) \<longleftrightarrow>
            \<not> (isOpen e \<and> startAt e \<le> now_open en \<and> now_open en \<le> endAt e))"
proof -
  let ?w = "isOpen e \<and> startAt e \<le> now_open en \<and> now_open en \<le> endAt e"
  have g: "electionOpenMiddleware s en = (if ?w then Inr e else Inl Election_not_open)"
    using assms by (auto simp: electionOpenMiddleware_def)
  have m: "fst (oneBallotOnlyMiddleware s en u e') \<noteq> Inl Election_not_open" for e'
    by (auto simp: oneBallotOnlyMiddleware_def Let_def split: option.splits)
  have b: "fst (ballot_get s en u) \<noteq> Inl Election_not_open" if ?w
  proof -
    obtain o1 s1 where o: "oneBallotOnlyMiddleware s en u e = (o1, s1)"
      by (cases "oneBallotOnlyMiddleware s en u e")
    with m [of e] have "o1 \<noteq> Inl Election_not_open" by simp
    with o g that show ?thesis
      by (auto simp: ballot_get_def split: sum.splits)
  qed
  have v: "fst (vote_submit s en u sel) \<noteq> Inl Election_not_open" if ?w
  proof (cases rule: vote_submit_cases [of s en u sel])
    case (gate f)
    with that g show ?thesis by simp
  next
    case (ledger e' f)
    with m [of e'] show ?thesis by simp
  next
    case (store e r s1 t)
    then show ?thesis by simp
  next
    case (saved e r s1 s2)
    then show ?thesis by auto
  qed
  have closed: "electionOpenMiddleware s en = Inl Election_not_open" if "\<not> ?w"
    using g that by metis
  have b': "ballot_get s en u = (Inl Election_not_open, s)" if "\<not> ?w"
    by (simp add: ballot_get_def closed [OF that])
  have v': "vote_submit s en u sel = (Inl Election_not_open, s)" if "\<not> ?w"
    by (simp add: vote_submit_def vote_submit_handler_def closed [OF that])
  show ?thesis
    using g b v b' v' by (cases ?w) (simp_all, (metis fst_conv)+)
qed

text \<open>
  Claim C7. A first eligible ballot request of a voter creates the assignment, with
  \<open>issuedAt\<close> the instant of the request and \<open>votedAt\<close> null. A second eligible request
  before voting finds that same assignment, hands it on unchanged, and creates no
  record. Both requests are answered with the same ballot.
\<close>

theorem requestBallot_idempotent:
  assumes gate1: "electionOpenMiddleware s en1 = Inr e"
      and fresh: "findAssignment s (voter_id u) (election_id e) = None"
      and s1: "s1 = snd (ballot_get s en1 u)"
      and gate2: "electionOpenMiddleware s1 en2 = Inr e"
      and a: "a = \<lparr>voterId = voter_id u, electionId = election_id e,
                    issuedAt = now_issued en1, votedAt = None\<rparr>"
  shows "oneBallotOnlyMiddleware s en1 u e =
           (Inr a, s\<lparr>BallotAssignment := BallotAssignment s @ [a]\<rparr>) \<and>
         BallotAssignment s1 = BallotAssignment s @ [a] \<and>
         oneBallotOnlyMiddleware s1 en2 u e = (Inr a, s1) \<and>
         BallotAssignment (snd (ballot_get s1 en2 u)) = BallotAssignment s1 \<and>
         (audit_ok en1 \<longrightarrow>
            fst (ballot_get s en1 u) = Inr (BallotJson (election_id e) (el_name e) (contests e))) \<and>
         (audit_ok en2 \<longrightarrow>
            fst (ballot_get s1 en2 u) = Inr (BallotJson (election_id e) (el_name e) (contests e)))"
proof -
  let ?s' = "s\<lparr>BallotAssignment := BallotAssignment s @ [a]\<rparr>"
  have m1: "oneBallotOnlyMiddleware s en1 u e = (Inr a, ?s')"
    unfolding a using fresh by (rule oneBallotOnlyMiddleware_new)
  have b1: "ballot_get s en1 u =
              (if audit_ok en1
               then (Inr (BallotJson (election_id e) (el_name e) (contests e)),
                     ?s'\<lparr>AuditLog := AuditLog ?s' @
                           [\<lparr>actor = email u, actorId = Some (voter_id u),
                             action = ''ballot_requested'',
                             details = PathMethod ''/ballot/get'' ''GET''\<rparr>]\<rparr>)
               else (Inl (Thrown AuditWriteFailed), ?s'))"
    by (simp add: ballot_get_def gate1 m1 auditLogger_def AuditLog_create_def)
  have ba: "BallotAssignment s1 = BallotAssignment s @ [a]"
    by (simp add: s1 b1)
  have "find (\<lambda>x. voterId x = voter_id u \<and> electionId x = election_id e) (BallotAssignment s) = None"
    using fresh by (simp add: findAssignment_def)
  then have f1: "findAssignment s1 (voter_id u) (election_id e) = Some a"
    by (simp add: findAssignment_def ba find_append_None) (simp add: a)
  have m2: "oneBallotOnlyMiddleware s1 en2 u e = (Inr a, s1)"
    using f1 by (rule oneBallotOnlyMiddleware_pending) (simp add: a)
  have b2: "ballot_get s1 en2 u =
              (if audit_ok en2
               then (Inr (BallotJson (election_id e) (el_name e) (contests e)),
                     s1\<lparr>AuditLog := AuditLog s1 @
                           [\<lparr>actor = email u, actorId = Some (voter_id u),
                             action = ''ballot_requested'',
                             details = PathMethod ''/ballot/get'' ''GET''\<rparr>]\<rparr>)
               else (Inl (Thrown AuditWriteFailed), s1))"
    by (simp add: ballot_get_def gate2 m2 auditLogger_def AuditLog_create_def)
  show ?thesis
    using m1 ba m2 by (simp add: b1 b2)
qed

text \<open>
  Claim C2, as amended. A vote submission does not compare the selections with the
  contests of the election. When the election check passes, the voter has not voted,
  every selection has a non-empty contest id (the one requirement of the schema), the
  receipt is new and the audit write succeeds, the submission succeeds for every list of
  selections, and the anonymous vote is recorded with the selections as submitted. A
  submission that leaves contests out, or all of them, is recorded like any other.
\<close>

theorem vote_submit_records_unchecked:
  assumes gate: "electionOpenMiddleware s en = Inr e"
      and pending: "\<forall>a. findAssignment s (voter_id u) (election_id e) = Some a \<longrightarrow> votedAt a = None"
      and schema: "\<not> list_ex (\<lambda>x. contestId x = []) sel"
      and fresh: "random_hex en \<notin> set (map receipt (AnonymousVote s))"
      and audit: "audit_ok en"
  shows "fst (vote_submit s en u sel) = Inr (VoteSubmitted (random_hex en)) \<and>
         AnonymousVote (snd (vote_submit s en u sel)) =
           AnonymousVote s @
             [\<lparr>vote_electionId = election_id e, selections = sel,
               submittedAt = now_submitted en, receipt = random_hex en\<rparr>]"
proof -
  obtain r s1 where m: "oneBallotOnlyMiddleware s en u e = (Inr r, s1)"
  proof (cases "findAssignment s (voter_id u) (election_id e)")
    case None
    from oneBallotOnlyMiddleware_new [OF None, of en] that show ?thesis by blast
  next
    case (Some a)
    with pending have "votedAt a = None" by simp
    from oneBallotOnlyMiddleware_pending [OF Some this, of en] that show ?thesis by blast
  qed
  from oneBallotOnlyMiddleware_rest [of s en u e] m
  have s1: "AnonymousVote s1 = AnonymousVote s" by simp
  let ?v = "\<lparr>vote_electionId = election_id e, selections = sel,
             submittedAt = now_submitted en, receipt = random_hex en\<rparr>"
  have c: "AnonymousVote_create s1 ?v = Inr (s1\<lparr>AnonymousVote := AnonymousVote s @ [?v]\<rparr>)"
    using schema fresh by (simp add: AnonymousVote_create_def s1)
  show ?thesis
    using audit
    by (simp add: vote_submit_def vote_submit_handler_def gate m c AuditLog_create_def save_votedAt_def Let_def)
qed

text \<open>
  Claim C3. Every successful vote submission appends two documents: the anonymous vote,
  whose unique key is the receipt, and an audit event that holds the email and the id of
  the voter together with that same receipt. The anonymous vote itself has no field for
  a voter; the audit log is what links the voter to the vote.
\<close>

theorem audit_log_links_voter_to_vote:
  assumes "vote_submit s en u sel = (Inr resp, s')"
  shows "\<exists>e. electionOpenMiddleware s en = Inr e \<and>
             resp = VoteSubmitted (random_hex en) \<and>
             AnonymousVote s' = AnonymousVote s @
               [\<lparr>vote_electionId = election_id e, selections = sel,
                 submittedAt = now_submitted en, receipt = random_hex en\<rparr>] \<and>
             AuditLog s' = AuditLog s @
               [\<lparr>actor = email u, actorId = Some (voter_id u), action = ''vote_submitted'',
                 details = ReceiptDetails (random_hex en)\<rparr>]"
  using assms by (rule vote_submit_Inr) blast

text \<open>
  Claim C8, as amended. Publishing has no precondition on closing or tallying. For an
  admin and a configured election it sets \<open>isPublished\<close>, whatever \<open>isOpen\<close> is and
  whether or not a tally has ever been run, and it answers \<open>Results published\<close> when
  the audit write succeeds.
\<close>

theorem publish_has_no_precondition:
  assumes "adminMiddleware u" and "Election s = Some e"
  shows "Election (snd (admin_results_publish s en u)) = Some (e\<lparr>isPublished := True\<rparr>) \<and>
         (audit_ok en \<longrightarrow>
            fst (admin_results_publish s en u) = Inr (Message ''Results published''))"
  using assms
  by (simp add: admin_results_publish_def admin_election_update_def admin_action_def
        AuditLog_create_def Let_def)

lemma gate_audit_ok [simp]:
  "electionOpenMiddleware s (en\<lparr>audit_ok := b\<rparr>) = electionOpenMiddleware s en"
  by (simp add: electionOpenMiddleware_def split: option.splits)

lemma ledger_audit_ok [simp]:
  "oneBallotOnlyMiddleware s (en\<lparr>audit_ok := b\<rparr>) u e = oneBallotOnlyMiddleware s en u e"
  by (simp add: oneBallotOnlyMiddleware_def split: option.splits)

lemma AuditLog_create_ok:
  "AuditLog_create s (en\<lparr>audit_ok := True\<rparr>) entry = Inr (s\<lparr>AuditLog := AuditLog s @ [entry]\<rparr>)"
  "AuditLog_create s (en\<lparr>audit_ok := False\<rparr>) entry = Inl AuditWriteFailed"
  by (simp_all add: AuditLog_create_def)

lemma ballot_get_audit:
  assumes "fst (ballot_get s (en\<lparr>audit_ok := True\<rparr>) u) = Inr resp"
  shows "ballot_get s (en\<lparr>audit_ok := False\<rparr>) u =
           (Inl (Thrown AuditWriteFailed),
            (snd (ballot_get s (en\<lparr>audit_ok := True\<rparr>) u))\<lparr>AuditLog := AuditLog s\<rparr>)"
proof (cases "electionOpenMiddleware s en")
  case (Inl f)
  with assms show ?thesis by (simp add: ballot_get_def)
next
  case (Inr e)
  obtain o1 s1 where m: "oneBallotOnlyMiddleware s en u e = (o1, s1)"
    by (cases "oneBallotOnlyMiddleware s en u e")
  from oneBallotOnlyMiddleware_rest [of s en u e] m have "AuditLog s1 = AuditLog s" by simp
  then have "s1\<lparr>AuditLog := AuditLog s\<rparr> = s1" by (metis state.surjective state.update_convs(4))
  with assms Inr m show ?thesis
    by (cases o1) (simp_all add: ballot_get_def auditLogger_def AuditLog_create_ok)
qed

lemma vote_submit_audit:
  assumes "fst (vote_submit s (en\<lparr>audit_ok := True\<rparr>) u sel) = Inr resp"
  shows "vote_submit s (en\<lparr>audit_ok := False\<rparr>) u sel =
           (Inl (Thrown AuditWriteFailed),
            (snd (vote_submit s (en\<lparr>audit_ok := True\<rparr>) u sel))\<lparr>AuditLog := AuditLog s\<rparr>)"
proof (cases "electionOpenMiddleware s en")
  case (Inl f)
  with assms show ?thesis by (simp add: vote_submit_def vote_submit_handler_def)
next
  case (Inr e)
  obtain o1 s1 where m: "oneBallotOnlyMiddleware s en u e = (o1, s1)"
    by (cases "oneBallotOnlyMiddleware s en u e")
  from oneBallotOnlyMiddleware_rest [of s en u e] m have a: "AuditLog s1 = AuditLog s" by simp
  show ?thesis
  proof (cases o1)
    case (Inl f)
    with assms Inr m show ?thesis by (simp add: vote_submit_def vote_submit_handler_def)
  next
    case r: (Inr r)
    let ?v = "\<lparr>vote_electionId = election_id e, selections = sel,
               submittedAt = now_submitted en, receipt = random_hex en\<rparr>"
    show ?thesis
    proof (cases "AnonymousVote_create s1 ?v")
      case (Inl t)
      with assms Inr m r show ?thesis by (simp add: vote_submit_def vote_submit_handler_def)
    next
      case c: (Inr s2)
      then have s2: "s2 = s1\<lparr>AnonymousVote := AnonymousVote s1 @ [?v]\<rparr>"
        by (rule AnonymousVote_create_Inr)
      let ?s3 = "save_votedAt s2 r (now_voted en)"
      have "AuditLog ?s3 = AuditLog s" by (simp add: save_votedAt_def s2 a)
      then have "?s3\<lparr>AuditLog := AuditLog s\<rparr> = ?s3"
        by (metis state.surjective state.update_convs(4))
      with Inr m r c show ?thesis
        by (simp add: vote_submit_def vote_submit_handler_def Let_def AuditLog_create_ok)
    qed
  qed
qed

lemma AuditLog_reset:
  "AuditLog s1 = AuditLog s \<Longrightarrow> s1\<lparr>AuditLog := AuditLog s\<rparr> = s1"
  by (metis state.surjective state.update_convs(4))

lemma admin_election_setup_audit:
  assumes "fst (admin_election_setup s (en\<lparr>audit_ok := True\<rparr>) u b) = Inr resp"
  shows "admin_election_setup s (en\<lparr>audit_ok := False\<rparr>) u b =
           (Inl (Thrown AuditWriteFailed),
            (snd (admin_election_setup s (en\<lparr>audit_ok := True\<rparr>) u b))\<lparr>AuditLog := AuditLog s\<rparr>)"
proof -
  let ?e = "\<lparr>election_id = next_oid s, el_name = body_name b,
             startAt = the (body_startAt b), endAt = the (body_endAt b),
             isOpen = False, isPublished = False, contests = body_contests b\<rparr>"
  let ?s2 = "s\<lparr>Election := Some ?e, next_oid := next_oid s + 1\<rparr>"
  from assms have ok: "adminMiddleware u" "Election_valid b"
    by (auto simp: admin_election_setup_def Let_def split: if_splits)
  have "?s2\<lparr>AuditLog := AuditLog s\<rparr> = ?s2" by (rule AuditLog_reset) simp
  with ok show ?thesis
    by (simp add: admin_election_setup_def admin_action_def AuditLog_create_ok Let_def)
qed

lemma admin_election_update_audit:
  assumes "fst (admin_election_update s (en\<lparr>audit_ok := True\<rparr>) u change act msg) = Inr resp"
  shows "admin_election_update s (en\<lparr>audit_ok := False\<rparr>) u change act msg =
           (Inl (Thrown AuditWriteFailed),
            (snd (admin_election_update s (en\<lparr>audit_ok := True\<rparr>) u change act msg))
              \<lparr>AuditLog := AuditLog s\<rparr>)"
proof (cases "Election s")
  case None
  with assms show ?thesis
    by (simp add: admin_election_update_def split: if_splits)
next
  case (Some e)
  let ?s1 = "s\<lparr>Election := Some (change e)\<rparr>"
  from assms have ok: "adminMiddleware u"
    by (auto simp: admin_election_update_def split: if_splits)
  have "?s1\<lparr>AuditLog := AuditLog s\<rparr> = ?s1" by (rule AuditLog_reset) simp
  with ok Some show ?thesis
    by (simp add: admin_election_update_def admin_action_def AuditLog_create_ok Let_def)
qed

lemma admin_tally_run_audit:
  assumes "fst (admin_tally_run s (en\<lparr>audit_ok := True\<rparr>) u) = Inr resp"
  shows "admin_tally_run s (en\<lparr>audit_ok := False\<rparr>) u =
           (Inl (Thrown AuditWriteFailed),
            (snd (admin_tally_run s (en\<lparr>audit_ok := True\<rparr>) u))\<lparr>AuditLog := AuditLog s\<rparr>)"
proof (cases "Election s")
  case None
  with assms show ?thesis
    by (simp add: admin_tally_run_def split: if_splits)
next
  case (Some e)
  from assms have ok: "adminMiddleware u"
    by (auto simp: admin_tally_run_def split: if_splits)
  obtain x t where run: "tally_loops (process_builtins s) e (votes_of s e) = (x, t)"
    by (cases "tally_loops (process_builtins s) e (votes_of s e)")
  let ?s0 = "s\<lparr>process_builtins := builtin_objects t\<rparr>"
  have "?s0\<lparr>AuditLog := AuditLog s\<rparr> = ?s0" by (rule AuditLog_reset) simp
  with assms ok Some run show ?thesis
    by (cases x) (simp_all add: admin_tally_run_def admin_action_def AuditLog_create_ok)
qed

lemma ballot_get_early:
  assumes "fst (ballot_get s (en\<lparr>audit_ok := True\<rparr>) u) = Inl f"
  shows "ballot_get s (en\<lparr>audit_ok := False\<rparr>) u = ballot_get s (en\<lparr>audit_ok := True\<rparr>) u"
proof (cases "electionOpenMiddleware s en")
  case (Inl g)
  then show ?thesis by (simp add: ballot_get_def)
next
  case (Inr e)
  obtain o1 s1 where m: "oneBallotOnlyMiddleware s en u e = (o1, s1)"
    by (cases "oneBallotOnlyMiddleware s en u e")
  with assms Inr show ?thesis
    by (cases o1) (simp_all add: ballot_get_def auditLogger_def AuditLog_create_ok)
qed

lemma vote_submit_early:
  assumes "fst (vote_submit s (en\<lparr>audit_ok := True\<rparr>) u sel) = Inl f"
  shows "vote_submit s (en\<lparr>audit_ok := False\<rparr>) u sel =
         vote_submit s (en\<lparr>audit_ok := True\<rparr>) u sel"
proof (cases "electionOpenMiddleware s en")
  case (Inl g)
  then show ?thesis by (simp add: vote_submit_def vote_submit_handler_def)
next
  case (Inr e)
  obtain o1 s1 where m: "oneBallotOnlyMiddleware s en u e = (o1, s1)"
    by (cases "oneBallotOnlyMiddleware s en u e")
  show ?thesis
  proof (cases o1)
    case (Inl g)
    with Inr m show ?thesis by (simp add: vote_submit_def vote_submit_handler_def)
  next
    case r: (Inr r)
    let ?v = "\<lparr>vote_electionId = election_id e, selections = sel,
               submittedAt = now_submitted en, receipt = random_hex en\<rparr>"
    show ?thesis
    proof (cases "AnonymousVote_create s1 ?v")
      case (Inl t)
      with Inr m r show ?thesis by (simp add: vote_submit_def vote_submit_handler_def)
    next
      case c: (Inr s2)
      with assms Inr m r show ?thesis
        by (simp add: vote_submit_def vote_submit_handler_def Let_def AuditLog_create_ok)
    qed
  qed
qed

lemma admin_election_setup_early:
  assumes "fst (admin_election_setup s (en\<lparr>audit_ok := True\<rparr>) u b) = Inl f"
  shows "admin_election_setup s (en\<lparr>audit_ok := False\<rparr>) u b =
         admin_election_setup s (en\<lparr>audit_ok := True\<rparr>) u b"
  using assms
  by (simp add: admin_election_setup_def admin_action_def AuditLog_create_ok Let_def
        split: if_splits)

lemma admin_election_update_early:
  assumes "fst (admin_election_update s (en\<lparr>audit_ok := True\<rparr>) u change act msg) = Inl f"
  shows "admin_election_update s (en\<lparr>audit_ok := False\<rparr>) u change act msg =
         admin_election_update s (en\<lparr>audit_ok := True\<rparr>) u change act msg"
  using assms
  by (cases "Election s")
     (simp_all add: admin_election_update_def admin_action_def AuditLog_create_ok Let_def
        split: if_splits)

lemma admin_tally_run_early:
  assumes "fst (admin_tally_run s (en\<lparr>audit_ok := True\<rparr>) u) = Inl f"
  shows "admin_tally_run s (en\<lparr>audit_ok := False\<rparr>) u =
         admin_tally_run s (en\<lparr>audit_ok := True\<rparr>) u"
proof (cases "Election s")
  case None
  then show ?thesis by (simp add: admin_tally_run_def)
next
  case (Some e)
  obtain x t where run: "tally_loops (process_builtins s) e (votes_of s e) = (x, t)"
    by (cases "tally_loops (process_builtins s) e (votes_of s e)")
  with assms Some show ?thesis
    by (cases x)
       (simp_all add: admin_tally_run_def admin_action_def AuditLog_create_ok split: if_splits)
qed

text \<open>
  Claim C9, as amended. The audit write is part of the request. A request that ends in
  an error response, or throws, before its audit write ends the same way when the audit
  write would fail, and so does \<open>/results/view\<close>, which writes no audit event. Any
  other request that succeeds when its audit write succeeds throws when the write
  fails, and no response is sent; what the request had stored before the audit write
  stays stored, and the audit log stays as it was. This holds for the ballot request,
  the vote submission and every admin route.
\<close>

theorem audit_failure_fails_request:
  "handle s (en\<lparr>audit_ok := False\<rparr>, rq) =
     (case fst (handle s (en\<lparr>audit_ok := True\<rparr>, rq)) of
        Inl f \<Rightarrow> handle s (en\<lparr>audit_ok := True\<rparr>, rq)
      | Inr resp \<Rightarrow>
          if rq = Results_view then handle s (en\<lparr>audit_ok := True\<rparr>, rq)
          else (Inl (Thrown AuditWriteFailed),
                (snd (handle s (en\<lparr>audit_ok := True\<rparr>, rq)))\<lparr>AuditLog := AuditLog s\<rparr>))"
proof (cases "fst (handle s (en\<lparr>audit_ok := True\<rparr>, rq))")
  case (Inl f)
  then have "handle s (en\<lparr>audit_ok := False\<rparr>, rq) = handle s (en\<lparr>audit_ok := True\<rparr>, rq)"
    by (cases rq)
       (simp_all add: ballot_get_early vote_submit_early admin_election_setup_early
          admin_election_update_early admin_tally_run_early
          admin_election_open_def admin_election_close_def admin_results_publish_def)
  with Inl show ?thesis by simp
next
  case (Inr resp)
  then have "handle s (en\<lparr>audit_ok := False\<rparr>, rq) =
      (if rq = Results_view then handle s (en\<lparr>audit_ok := True\<rparr>, rq)
       else (Inl (Thrown AuditWriteFailed),
             (snd (handle s (en\<lparr>audit_ok := True\<rparr>, rq)))\<lparr>AuditLog := AuditLog s\<rparr>))"
    by (cases rq)
       (simp_all add: ballot_get_audit vote_submit_audit admin_election_setup_audit
          admin_election_update_audit admin_tally_run_audit
          admin_election_open_def admin_election_close_def admin_results_publish_def)
  with Inr show ?thesis by simp
qed

lemma votes_of_append:
  "vote_electionId v = election_id e \<Longrightarrow>
     votes_of (s\<lparr>AnonymousVote := AnonymousVote s @ [v]\<rparr>) e = votes_of s e @ [v]"
  by (simp add: votes_of_def)






section \<open>The claims on the examples\<close>

lemmas example_defs =
  voter1_def voter2_def admin1_def state_E1_def env_at_def select_A_def select_B_def
  state_voted_def election_E1_def contest_C1_def

lemmas route_defs =
  vote_submit_def vote_submit_handler_def ballot_get_def electionOpenMiddleware_def oneBallotOnlyMiddleware_def
  findAssignment_def AnonymousVote_create_def save_votedAt_def AuditLog_create_def
  auditLogger_def Let_def

lemma first_vote:
  "vote_submit state_E1 (env_at 150 ''r1'' True) voter1 select_A =
     (Inr (VoteSubmitted ''r1''), state_voted)"
  by (simp add: example_defs route_defs)


text \<open>The election check lets both submissions of the following scenario through.\<close>

lemma election_check_passes:
  "electionOpenMiddleware state_E1 (env_at 150 ''r1'' True) = Inr election_E1 \<and>
   electionOpenMiddleware state_E1 (env_at 151 ''r2'' True) = Inr election_E1"
  by (simp add: example_defs route_defs)

text \<open>
  Claim C1. Two submissions of voter 1 to the open election E1 are in flight together:
  the ledger middleware of the first creates the assignment, the ledger middleware of
  the second finds it with \<open>votedAt\<close> null, and only then do the two handlers run. The
  handler saves \<open>votedAt\<close> without testing it again: both submissions are answered
  with a receipt, two anonymous votes are stored for the one assignment, and the second
  handler overwrites the \<open>votedAt\<close> that the first one had set.
\<close>

theorem submissions_in_flight:
  "(let (m1, s1) = oneBallotOnlyMiddleware state_E1 (env_at 150 ''r1'' True) voter1 election_E1;
        (m2, s2) = oneBallotOnlyMiddleware s1 (env_at 151 ''r2'' True) voter1 election_E1;
        (o1, s3) = vote_submit_handler s2 (env_at 150 ''r1'' True) voter1 election_E1
                     (projr m1) select_A;
        (o2, s4) = vote_submit_handler s3 (env_at 151 ''r2'' True) voter1 election_E1
                     (projr m2) select_B
    in (m1, m2, o1, map votedAt (BallotAssignment s3),
        o2, map votedAt (BallotAssignment s4), map selections (AnonymousVote s4))) =
   (Inr \<lparr>voterId = 1, electionId = 7, issuedAt = 150, votedAt = None\<rparr>,
    Inr \<lparr>voterId = 1, electionId = 7, issuedAt = 150, votedAt = None\<rparr>,
    Inr (VoteSubmitted ''r1''), [Some 150],
    Inr (VoteSubmitted ''r2''), [Some 151], [select_A, select_B])"
  by (simp add: example_defs route_defs)

text \<open>
  C6 on the example: the open election E1 accepts at instant 150 and refuses at the
  instants 99 and 201, outside its window.
\<close>

theorem eligibility_is_window_check_witness:
  "electionOpenMiddleware state_E1 (env_at 150 [] True) = Inr election_E1 \<and>
   electionOpenMiddleware state_E1 (env_at 99 [] True) = Inl Election_not_open \<and>
   ballot_get state_E1 (env_at 201 [] True) voter1 = (Inl Election_not_open, state_E1) \<and>
   vote_submit state_E1 (env_at 99 ''r1'' True) voter1 select_A = (Inl Election_not_open, state_E1)"
proof -
  have e: "Election state_E1 = Some election_E1" by (simp add: state_E1_def)
  have w: "isOpen election_E1" "startAt election_E1 = 100" "endAt election_E1 = 200"
    by (simp_all add: election_E1_def)
  from eligibility_is_window_check [OF e, of "env_at 150 [] True"]
    eligibility_is_window_check [OF e, of "env_at 99 [] True"]
    eligibility_is_window_check [OF e, of "env_at 201 [] True" voter1]
    eligibility_is_window_check [OF e, of "env_at 99 ''r1'' True" voter1 select_A]
  show ?thesis by (simp add: w env_at_def)
qed

text \<open>C7 on the example: two ballot requests of voter 1, at the instants 150 and 160.\<close>

theorem requestBallot_idempotent_witness:
  "oneBallotOnlyMiddleware state_E1 (env_at 150 [] True) voter1 election_E1 =
     (Inr \<lparr>voterId = 1, electionId = 7, issuedAt = 150, votedAt = None\<rparr>,
      state_E1\<lparr>BallotAssignment :=
                 [\<lparr>voterId = 1, electionId = 7, issuedAt = 150, votedAt = None\<rparr>]\<rparr>) \<and>
   oneBallotOnlyMiddleware (snd (ballot_get state_E1 (env_at 150 [] True) voter1))
       (env_at 160 [] True) voter1 election_E1 =
     (Inr \<lparr>voterId = 1, electionId = 7, issuedAt = 150, votedAt = None\<rparr>,
      snd (ballot_get state_E1 (env_at 150 [] True) voter1)) \<and>
   BallotAssignment (snd (ballot_get (snd (ballot_get state_E1 (env_at 150 [] True) voter1))
                            (env_at 160 [] True) voter1)) =
     [\<lparr>voterId = 1, electionId = 7, issuedAt = 150, votedAt = None\<rparr>]"
proof -
  let ?s1 = "snd (ballot_get state_E1 (env_at 150 [] True) voter1)"
  have g1: "electionOpenMiddleware state_E1 (env_at 150 [] True) = Inr election_E1"
    by (simp add: example_defs route_defs)
  have f: "findAssignment state_E1 (voter_id voter1) (election_id election_E1) = None"
    by (simp add: example_defs route_defs)
  have g2: "electionOpenMiddleware ?s1 (env_at 160 [] True) = Inr election_E1"
    by (simp add: example_defs route_defs)
  have a: "\<lparr>voterId = 1, electionId = 7, issuedAt = 150, votedAt = None\<rparr> =
           \<lparr>voterId = voter_id voter1, electionId = election_id election_E1,
            issuedAt = now_issued (env_at 150 [] True), votedAt = None\<rparr>"
    by (simp add: example_defs)
  from requestBallot_idempotent [OF g1 f refl g2 a]
  show ?thesis by (simp add: state_E1_def)
qed


text \<open>
  Claim C2 as stated fails: in E1, whose contest C1 allows one selection, a submission
  that selects A, B and the unknown id X for C1, and Q for the unknown contest ZZ, is
  answered with a receipt and recorded.
\<close>

theorem vote_submit_accepts_invalid_selections:
  "vote_submit state_E1 (env_at 150 ''r1'' True) voter1 select_invalid =
     (Inr (VoteSubmitted ''r1''),
      state_voted\<lparr>AnonymousVote := [vote_for ''r1'' select_invalid]\<rparr>)"
  by (simp add: example_defs route_defs select_invalid_def vote_for_def)

text \<open>C2 as amended on the example: voter 2 submits no selection at all.\<close>

theorem vote_submit_records_unchecked_witness:
  "fst (vote_submit state_voted (env_at 160 ''r2'' True) voter2 []) = Inr (VoteSubmitted ''r2'') \<and>
   AnonymousVote (snd (vote_submit state_voted (env_at 160 ''r2'' True) voter2 [])) =
     [vote_for ''r1'' select_A,
      \<lparr>vote_electionId = 7, selections = [], submittedAt = 160, receipt = ''r2''\<rparr>]"
proof -
  have g: "electionOpenMiddleware state_voted (env_at 160 ''r2'' True) = Inr election_E1"
    by (simp add: example_defs route_defs)
  have p: "\<forall>a. findAssignment state_voted (voter_id voter2) (election_id election_E1) = Some a
             \<longrightarrow> votedAt a = None"
    by (simp add: example_defs route_defs)
  have f: "random_hex (env_at 160 ''r2'' True) \<notin> set (map receipt (AnonymousVote state_voted))"
    by (simp add: example_defs)
  from vote_submit_records_unchecked [OF g p _ f, of "[]"]
  show ?thesis by (simp add: example_defs vote_for_def)
qed

text \<open>
  C3 on the example: after the vote of voter 1 the audit log holds the email and id of
  voter 1 next to the receipt r1, the key of the anonymous vote.
\<close>

theorem audit_log_links_voter_to_vote_witness:
  "vote_submit state_E1 (env_at 150 ''r1'' True) voter1 select_A =
     (Inr (VoteSubmitted ''r1''), state_voted) \<and>
   AnonymousVote state_voted =
     [\<lparr>vote_electionId = 7, selections = select_A, submittedAt = 150, receipt = ''r1''\<rparr>] \<and>
   AuditLog state_voted =
     [\<lparr>actor = ''v1@example.org'', actorId = Some 1, action = ''vote_submitted'',
       details = ReceiptDetails ''r1''\<rparr>]"
proof -
  from audit_log_links_voter_to_vote [OF first_vote]
  have "AuditLog state_voted = AuditLog state_E1 @
          [\<lparr>actor = email voter1, actorId = Some (voter_id voter1),
            action = ''vote_submitted'',
            details = ReceiptDetails (random_hex (env_at 150 ''r1'' True))\<rparr>]"
    by blast
  then have "AuditLog state_voted =
     [\<lparr>actor = ''v1@example.org'', actorId = Some 1, action = ''vote_submitted'',
       details = ReceiptDetails ''r1''\<rparr>]"
    by (simp add: voter1_def env_at_def state_E1_def)
  with first_vote show ?thesis by (simp add: state_voted_def)
qed

text \<open>
  Claim C8 as stated fails: E1 is open, no vote is stored and no tally has been run, and
  publishing succeeds.
\<close>

theorem publish_before_close_and_tally:
  "admin_results_publish state_E1 (env_at 150 [] True) admin1 =
     (Inr (Message ''Results published''),
      state_E1\<lparr>Election := Some (election_E1\<lparr>isPublished := True\<rparr>),
               AuditLog := [\<lparr>actor = ''admin@example.org'', actorId = Some 0,
                             action = ''results_published'', details = NoDetails\<rparr>]\<rparr>)"
  by (simp add: example_defs admin_results_publish_def admin_election_update_def
        admin_action_def adminMiddleware_def AuditLog_create_def)

text \<open>C8 as amended on the example: publishing while E1 is open and holds a vote.\<close>

theorem publish_has_no_precondition_witness:
  "Election (snd (admin_results_publish state_voted (env_at 160 [] True) admin1)) =
     Some (election_E1\<lparr>isPublished := True\<rparr>) \<and>
   fst (admin_results_publish state_voted (env_at 160 [] True) admin1) =
     Inr (Message ''Results published'')"
proof -
  have a: "adminMiddleware admin1" by (simp add: adminMiddleware_def admin1_def)
  have e: "Election state_voted = Some election_E1" by (simp add: state_voted_def)
  from publish_has_no_precondition [OF a e, of "env_at 160 [] True"]
  show ?thesis by (simp add: env_at_def)
qed

text \<open>
  Claim C9 as stated fails: the same vote submission is answered with a receipt when the
  audit write succeeds, and throws when it fails, after the vote has been stored and the
  assignment marked.
\<close>

theorem audit_failure_changes_outcome:
  "vote_submit state_E1 (env_at 150 ''r1'' True) voter1 select_A =
     (Inr (VoteSubmitted ''r1''), state_voted) \<and>
   vote_submit state_E1 (env_at 150 ''r1'' False) voter1 select_A =
     (Inl (Thrown AuditWriteFailed), state_voted\<lparr>AuditLog := []\<rparr>)"
  by (simp add: example_defs route_defs)

text \<open>C9 as amended on the example: a ballot request with and without its audit write.\<close>

theorem audit_failure_fails_request_witness:
  "handle state_E1 (env_at 150 [] True, Ballot_get voter1) =
     (Inr (BallotJson 7 ''E1'' [contest_C1]),
      state_E1\<lparr>BallotAssignment :=
                 [\<lparr>voterId = 1, electionId = 7, issuedAt = 150, votedAt = None\<rparr>],
               AuditLog := [\<lparr>actor = ''v1@example.org'', actorId = Some 1,
                             action = ''ballot_requested'',
                             details = PathMethod ''/ballot/get'' ''GET''\<rparr>]\<rparr>) \<and>
   handle state_E1 (env_at 150 [] False, Ballot_get voter1) =
     (Inl (Thrown AuditWriteFailed),
      state_E1\<lparr>BallotAssignment :=
                 [\<lparr>voterId = 1, electionId = 7, issuedAt = 150, votedAt = None\<rparr>]\<rparr>)"
proof -
  have ok: "handle state_E1 (env_at 150 [] True, Ballot_get voter1) =
     (Inr (BallotJson 7 ''E1'' [contest_C1]),
      state_E1\<lparr>BallotAssignment :=
                 [\<lparr>voterId = 1, electionId = 7, issuedAt = 150, votedAt = None\<rparr>],
               AuditLog := [\<lparr>actor = ''v1@example.org'', actorId = Some 1,
                             action = ''ballot_requested'',
                             details = PathMethod ''/ballot/get'' ''GET''\<rparr>]\<rparr>)"
    by (simp add: voter1_def state_E1_def env_at_def election_E1_def route_defs)
  have t: "(env_at 150 [] True)\<lparr>audit_ok := True\<rparr> = env_at 150 [] True"
    and f: "(env_at 150 [] True)\<lparr>audit_ok := False\<rparr> = env_at 150 [] False"
    by (simp_all add: env_at_def)
  have "handle state_E1 (env_at 150 [] False, Ballot_get voter1) =
          (Inl (Thrown AuditWriteFailed),
           (snd (handle state_E1 (env_at 150 [] True, Ballot_get voter1)))
             \<lparr>AuditLog := AuditLog state_E1\<rparr>)"
    using audit_failure_fails_request [of state_E1 "env_at 150 [] True" "Ballot_get voter1"]
    unfolding t f ok by simp
  then show ?thesis by (simp only: ok snd_conv) (simp add: state_E1_def)
qed

end
